theory Spec2Isabelle
  imports Main "HOL-Library.Word" "HOL-Library.Signed_Division"
begin

unbundle bit_operations_syntax

section \<open>The apps manager of OSP\_aoapps (aoapps\_mngr.cpp)\<close>

text \<open>
  The manager keeps a table of registered apps and runs one of them. Its C globals become
  the fields of one state record, every function takes the state and returns the new
  one. A failed \<^verbatim>\<open>AORESULT_ASSERT\<close> and C's undefined behaviour (division by zero, a call
  through a null pointer, an index outside the table) are values of the type \<open>fault\<close>.

  Whatever the manager calls outside its own file (the apps' handlers, the topology
  builder, the telegram senders, the clock, LEDs, OLED and Serial) is logged in the field
  \<open>trace\<close>, in call order. The answers of those calls come from an environment \<open>env\<close>,
  which may look at the whole log so far, so an outside function may answer differently
  on each call. The handlers are assumed not to call back into the manager.
\<close>

subsection \<open>Results, handlers, descriptors\<close>

text \<open>
  Modelled from the spec: the result type \<^verbatim>\<open>aoresult_t\<close> of aoresult.h (another
  library): "ok" or an error with a short discriminator.
\<close>

datatype aoresult = aoresult_ok | aoresult_error nat

text \<open>
  A handler of type \<^verbatim>\<open>aoresult_t (*)(void)\<close> (start and step), of type
  \<^verbatim>\<open>void (*)(void)\<close> (stop) and a command handler. A pointer is null, one of the three
  functions of the void app, or a function of some other file.
\<close>

datatype resfn = Resfn_null | Voidapp_start | Voidapp_step | Resfn_extern nat

datatype stopfn = Stopfn_null | Voidapp_stop | Stopfn_extern nat

datatype cmdfn = Cmdfn_null | Cmdfn_extern nat

text \<open>
  \<^verbatim>\<open>struct aoapps_mngr_app_s\<close>. A \<^verbatim>\<open>const char *\<close> is \<open>None\<close> for the null pointer and
  otherwise the characters before the terminator. The flags are an \<^verbatim>\<open>int\<close> used only as
  a bit mask, kept as its 32 bit pattern.
\<close>

record aoapps_mngr_app_t =
  app_name :: "string option"
  app_oled :: "string option"
  app_xlbl :: "string option"
  app_ylbl :: "string option"
  app_flags :: "32 word"
  app_start :: resfn
  app_step :: resfn
  app_stop :: stopfn
  app_cmd :: cmdfn
  app_help :: "string option"

definition AOAPPS_MNGR_REGISTRATION_SLOTS :: int where
  "AOAPPS_MNGR_REGISTRATION_SLOTS = 8"

definition AOAPPS_MNGR_FLAGS_NONE :: "32 word" where
  "AOAPPS_MNGR_FLAGS_NONE = 0x00"

definition AOAPPS_MNGR_FLAGS_WITHTOPO :: "32 word" where
  "AOAPPS_MNGR_FLAGS_WITHTOPO = 0x01"

definition AOAPPS_MNGR_FLAGS_WITHREPAIR :: "32 word" where
  "AOAPPS_MNGR_FLAGS_WITHREPAIR = 0x02"

definition AOAPPS_MNGR_FLAGS_NEXTONERR :: "32 word" where
  "AOAPPS_MNGR_FLAGS_NEXTONERR = 0x04"

definition AOAPPS_MNGR_FLAGS_ALL :: "32 word" where
  "AOAPPS_MNGR_FLAGS_ALL =
     (AOAPPS_MNGR_FLAGS_WITHTOPO OR AOAPPS_MNGR_FLAGS_WITHREPAIR OR AOAPPS_MNGR_FLAGS_NEXTONERR)"

definition AOAPPS_MNGR_HEARTBEAT_MS :: "32 word" where
  "AOAPPS_MNGR_HEARTBEAT_MS = 500"

definition AOAPPS_MNGR_REPAIR_MS :: "32 word" where
  "AOAPPS_MNGR_REPAIR_MS = 250"

definition AOAPPS_MNGR_ERROR_MS :: "32 word" where
  "AOAPPS_MNGR_ERROR_MS = 10000"

subsection \<open>The outside world\<close>

datatype led = AOUI32_LED_GRN | AOUI32_LED_RED

datatype event =
    App_start resfn
  | App_step resfn
  | App_stop stopfn
  | Topo_build_start
  | Topo_build_done
  | Topo_build_step
  | Topo_numtriplets
  | Send_clrerror nat
  | Send_goactive nat
  | Millis
  | Led_on "led list"
  | Led_off "led list"
  | Led_toggle "led list"
  | Oled_state "string option" "string option" "string option"
  | Oled_msg aoresult
  | Serial_error "string option" aoresult
  | Serial_starting "string option" int
  | Serial_nextonerr

record env =
  env_result :: "event list \<Rightarrow> aoresult"
  env_done :: "event list \<Rightarrow> bool"
  env_millis :: "event list \<Rightarrow> 32 word"
  env_numtriplets :: "event list \<Rightarrow> int"

text \<open>
  Modelled from the spec: \<^verbatim>\<open>AORESULT_ASSERT\<close> (aoresult.h, another library) is a fatal
  assertion; when its condition is false the call does not continue. \<open>Assert_failed\<close>
  carries the source line of the assertion. The other three faults are undefined
  behaviour of C.
\<close>

datatype fault = Assert_failed nat | Div_by_zero | Null_call | Out_of_bounds

subsection \<open>The state of the manager\<close>

datatype aoapps_mngr_state_t =
    AOAPPS_MNGR_STATE_TOPOBUILD
  | AOAPPS_MNGR_STATE_APPANIM
  | AOAPPS_MNGR_STATE_ERROR

text \<open>
  The statics of lines 75, 76, 182 to 187, 458 and 459, and the log of outside calls. The
  three C ints are HOL integers: the assertions keep count and index within 0 to 8, so
  no 32 bit overflow is in reach. The timestamps are \<^verbatim>\<open>uint32_t\<close> and wrap around.
\<close>

record mngr =
  aoapps_mngr_count :: int
  aoapps_mngr_apps :: "aoapps_mngr_app_t list"
  aoapps_mngr_appix :: int
  aoapps_mngr_moderun :: int
  aoapps_mngr_result :: aoresult
  aoapps_mngr_lastgrn :: "32 word"
  aoapps_mngr_lastrepair :: "32 word"
  aoapps_mngr_lasterror :: "32 word"
  aoapps_mngr_state :: aoapps_mngr_state_t
  aoapps_mngr_error :: aoresult
  trace :: "event list"

text \<open>The zero-initialised descriptor and the state of the statics before any call.\<close>

definition zero_app :: aoapps_mngr_app_t where
  "zero_app = \<lparr> app_name = None, app_oled = None, app_xlbl = None, app_ylbl = None,
     app_flags = 0, app_start = Resfn_null, app_step = Resfn_null, app_stop = Stopfn_null,
     app_cmd = Cmdfn_null, app_help = None \<rparr>"

definition zero_mngr :: mngr where
  "zero_mngr = \<lparr> aoapps_mngr_count = 0, aoapps_mngr_apps = replicate 8 zero_app,
     aoapps_mngr_appix = 0, aoapps_mngr_moderun = 0, aoapps_mngr_result = aoresult_ok,
     aoapps_mngr_lastgrn = 0, aoapps_mngr_lastrepair = 0, aoapps_mngr_lasterror = 0,
     aoapps_mngr_state = AOAPPS_MNGR_STATE_TOPOBUILD, aoapps_mngr_error = aoresult_ok,
     trace = [] \<rparr>"

subsection \<open>Calls that leave the file\<close>

definition emit :: "event \<Rightarrow> mngr \<Rightarrow> mngr" where
  "emit e s = s\<lparr> trace := trace s @ [e] \<rparr>"

definition millis :: "env \<Rightarrow> mngr \<Rightarrow> 32 word \<times> mngr" where
  "millis ev s = (let s' = emit Millis s in (env_millis ev (trace s'), s'))"

definition call_result :: "env \<Rightarrow> event \<Rightarrow> mngr \<Rightarrow> aoresult \<times> mngr" where
  "call_result ev e s = (let s' = emit e s in (env_result ev (trace s'), s'))"

text \<open>
  A call through a start or step pointer. The void app's two functions return ok
  (lines 34 to 41); any other function answers through the environment.
\<close>

definition call_resfn :: "env \<Rightarrow> (resfn \<Rightarrow> event) \<Rightarrow> resfn \<Rightarrow> mngr \<Rightarrow> fault + (aoresult \<times> mngr)" where
  "call_resfn ev tag f s =
     (case f of
        Resfn_null \<Rightarrow> Inl Null_call
      | Voidapp_start \<Rightarrow> Inr (aoresult_ok, emit (tag f) s)
      | Voidapp_step \<Rightarrow> Inr (aoresult_ok, emit (tag f) s)
      | Resfn_extern n \<Rightarrow> Inr (call_result ev (tag f) s))"

definition call_stopfn :: "stopfn \<Rightarrow> mngr \<Rightarrow> fault + mngr" where
  "call_stopfn f s =
     (case f of
        Stopfn_null \<Rightarrow> Inl Null_call
      | Voidapp_stop \<Rightarrow> Inr (emit (App_stop f) s)
      | Stopfn_extern n \<Rightarrow> Inr (emit (App_stop f) s))"

text \<open>Reading \<^verbatim>\<open>aoapps_mngr_apps[aoapps_mngr_appix]\<close>: outside the table it is undefined.\<close>

definition cur_app :: "mngr \<Rightarrow> fault + aoapps_mngr_app_t" where
  "cur_app s =
     (let i = aoapps_mngr_appix s
      in if 0 \<le> i \<and> i < int (length (aoapps_mngr_apps s))
         then Inr (aoapps_mngr_apps s ! nat i) else Inl Out_of_bounds)"

subsection \<open>Registration\<close>

text \<open>\<^verbatim>\<open>isalnum\<close> of the C library in the "C" locale.\<close>

definition isalnum :: "char \<Rightarrow> bool" where
  "isalnum c =
     (let n = (of_char c :: nat)
      in (48 \<le> n \<and> n \<le> 57) \<or> (65 \<le> n \<and> n \<le> 90) \<or> (97 \<le> n \<and> n \<le> 122))"

text \<open>
  The loop of lines 146 and 147 over the name: it stops at the terminator and asserts
  \<^verbatim>\<open>isalnum\<close> on every character before it. \<open>True\<close> when no assertion fails.
\<close>

fun name_chars_ok :: "string \<Rightarrow> bool" where
  "name_chars_ok [] = True"
| "name_chars_ok (c # cs) =
     (if c = CHR 0x00 then True else if isalnum c then name_chars_ok cs else False)"

definition aoapps_mngr_register ::
  "string option \<Rightarrow> string option \<Rightarrow> string option \<Rightarrow> string option \<Rightarrow> 32 word \<Rightarrow>
   resfn \<Rightarrow> resfn \<Rightarrow> stopfn \<Rightarrow> cmdfn \<Rightarrow> string option \<Rightarrow> mngr \<Rightarrow> fault + (unit \<times> mngr)" where
  "aoapps_mngr_register name oled xlbl ylbl flags start step stop cmd help s =
     (if \<not> aoapps_mngr_count s < AOAPPS_MNGR_REGISTRATION_SLOTS then Inl (Assert_failed 142)
      else if \<not> (name \<noteq> None \<and> oled \<noteq> None \<and> xlbl \<noteq> None \<and> ylbl \<noteq> None \<and>
                 start \<noteq> Resfn_null \<and> step \<noteq> Resfn_null \<and> stop \<noteq> Stopfn_null)
        then Inl (Assert_failed 143)
      else if \<not> ((cmd = Cmdfn_null) = (help = None)) then Inl (Assert_failed 144)
      else if \<not> (0 = (flags AND NOT AOAPPS_MNGR_FLAGS_ALL)) then Inl (Assert_failed 145)
      else if \<not> name_chars_ok (the name) then Inl (Assert_failed 147)
      else
        let slot = aoapps_mngr_count s;
            s1 = s\<lparr> aoapps_mngr_count := aoapps_mngr_count s + 1 \<rparr>
        in if 0 \<le> slot \<and> slot < int (length (aoapps_mngr_apps s1))
           then Inr ((), s1\<lparr> aoapps_mngr_apps := (aoapps_mngr_apps s1)[nat slot :=
                  \<lparr> app_name = name, app_oled = oled, app_xlbl = xlbl, app_ylbl = ylbl,
                    app_flags = flags, app_start = start, app_step = step, app_stop = stop,
                    app_cmd = cmd, app_help = help \<rparr>] \<rparr>)
           else Inl Out_of_bounds)"

definition aoapps_mngr_voidapp_register :: "mngr \<Rightarrow> fault + (unit \<times> mngr)" where
  "aoapps_mngr_voidapp_register s =
     aoapps_mngr_register (Some ''voidapp'') (Some ''USB command'') (Some ''--'') (Some ''--'')
       0 Voidapp_start Voidapp_step Voidapp_stop Cmdfn_null None s"

definition aoapps_mngr_app_count :: "mngr \<Rightarrow> int" where
  "aoapps_mngr_app_count s = aoapps_mngr_count s"

text \<open>The observer of line 428; an index outside the table is undefined.\<close>

definition aoapps_mngr_app_name :: "mngr \<Rightarrow> int \<Rightarrow> fault + string option" where
  "aoapps_mngr_app_name s appix =
     (if 0 \<le> appix \<and> appix < int (length (aoapps_mngr_apps s))
      then Inr (app_name (aoapps_mngr_apps s ! nat appix)) else Inl Out_of_bounds)"

definition aoapps_mngr_init :: "env \<Rightarrow> mngr \<Rightarrow> fault + mngr" where
  "aoapps_mngr_init ev s =
     (let s1 = s\<lparr> aoapps_mngr_count := 0, aoapps_mngr_appix := 0, aoapps_mngr_moderun := 0,
                  aoapps_mngr_result := aoresult_ok \<rparr>
      in case aoapps_mngr_voidapp_register s1 of
           Inl e \<Rightarrow> Inl e
         | Inr (u, s2) \<Rightarrow>
             let (t1, s3) = millis ev s2;
                 s4 = s3\<lparr> aoapps_mngr_lastgrn := t1 \<rparr>;
                 (t2, s5) = millis ev s4;
                 s6 = s5\<lparr> aoapps_mngr_lastrepair := t2 \<rparr>;
                 (t3, s7) = millis ev s6
             in Inr (s7\<lparr> aoapps_mngr_lasterror := t3 \<rparr>))"

subsection \<open>Status, repair and the sub-machine for apps with a topology build\<close>

definition aoapps_mngr_showstatus :: "env \<Rightarrow> mngr \<Rightarrow> fault + mngr" where
  "aoapps_mngr_showstatus ev s =
     (if aoapps_mngr_result s \<noteq> aoresult_ok then
        let (t, s1) = millis ev s;
            s2 = s1\<lparr> aoapps_mngr_lasterror := t \<rparr>;
            s3 = emit (Led_off [AOUI32_LED_GRN]) s2;
            s4 = emit (Led_on [AOUI32_LED_RED]) s3
        in case cur_app s4 of
             Inl e \<Rightarrow> Inl e
           | Inr a \<Rightarrow>
               Inr (emit (Oled_msg (aoapps_mngr_result s4))
                     (emit (Serial_error (app_name a) (aoapps_mngr_result s4)) s4))
      else
        let (t, s1) = millis ev s
        in if t - aoapps_mngr_lastgrn s1 > AOAPPS_MNGR_HEARTBEAT_MS then
             let s2 = emit (Led_toggle [AOUI32_LED_GRN]) s1;
                 (t2, s3) = millis ev s2
             in Inr (s3\<lparr> aoapps_mngr_lastgrn := t2 \<rparr>)
           else Inr s1)"

definition aoapps_mngr_repair :: "env \<Rightarrow> mngr \<Rightarrow> aoresult \<times> mngr" where
  "aoapps_mngr_repair ev s =
     (let (t, s1) = millis ev s
      in if t - aoapps_mngr_lastrepair s1 > AOAPPS_MNGR_REPAIR_MS then
           let (r1, s2) = call_result ev (Send_clrerror 0x000) s1
           in if r1 \<noteq> aoresult_ok then (r1, s2)
              else
                let (r2, s3) = call_result ev (Send_goactive 0x000) s2
                in if r2 \<noteq> aoresult_ok then (r2, s3)
                   else
                     let (t2, s4) = millis ev s3
                     in (aoresult_ok, s4\<lparr> aoapps_mngr_lastrepair := t2 \<rparr>)
         else (aoresult_ok, s1))"

definition aoapps_mngr_startwithtopo :: "mngr \<Rightarrow> aoresult \<times> mngr" where
  "aoapps_mngr_startwithtopo s =
     (let s1 = s\<lparr> aoapps_mngr_error := aoresult_ok \<rparr>;
          s2 = s1\<lparr> aoapps_mngr_state := AOAPPS_MNGR_STATE_TOPOBUILD \<rparr>;
          s3 = emit Topo_build_start s2
      in (aoapps_mngr_error s3, s3))"

definition aomw_topo_build_done :: "env \<Rightarrow> mngr \<Rightarrow> bool \<times> mngr" where
  "aomw_topo_build_done ev s = (let s' = emit Topo_build_done s in (env_done ev (trace s'), s'))"

definition aomw_topo_numtriplets :: "env \<Rightarrow> mngr \<Rightarrow> int \<times> mngr" where
  "aomw_topo_numtriplets ev s =
     (let s' = emit Topo_numtriplets s in (env_numtriplets ev (trace s'), s'))"

definition aoapps_mngr_stepwithtopo :: "env \<Rightarrow> mngr \<Rightarrow> fault + (aoresult \<times> mngr)" where
  "aoapps_mngr_stepwithtopo ev s =
     (case aoapps_mngr_state s of
        AOAPPS_MNGR_STATE_TOPOBUILD \<Rightarrow>
          let (done, s1) = aomw_topo_build_done ev s
          in if \<not> done then
               let (r, s2) = call_result ev Topo_build_step s1;
                   s3 = s2\<lparr> aoapps_mngr_error := r \<rparr>;
                   s4 = (if aoapps_mngr_error s3 \<noteq> aoresult_ok
                         then s3\<lparr> aoapps_mngr_state := AOAPPS_MNGR_STATE_ERROR \<rparr> else s3)
               in Inr (aoresult_ok, s4)
             else
               (case cur_app s1 of
                  Inl e \<Rightarrow> Inl e
                | Inr a \<Rightarrow>
                    let (n, s2) = aomw_topo_numtriplets ev s1;
                        s3 = emit (Serial_starting (app_name a) n) s2
                    in (case call_resfn ev App_start (app_start a) s3 of
                          Inl e \<Rightarrow> Inl e
                        | Inr (r, s4) \<Rightarrow>
                            let s5 = s4\<lparr> aoapps_mngr_error := r \<rparr>;
                                s6 = (if aoapps_mngr_error s5 \<noteq> aoresult_ok
                                      then s5\<lparr> aoapps_mngr_state := AOAPPS_MNGR_STATE_ERROR \<rparr>
                                      else s5);
                                s7 = s6\<lparr> aoapps_mngr_state := AOAPPS_MNGR_STATE_APPANIM \<rparr>
                            in Inr (aoapps_mngr_error s7, s7)))
      | AOAPPS_MNGR_STATE_APPANIM \<Rightarrow>
          (case cur_app s of
             Inl e \<Rightarrow> Inl e
           | Inr a \<Rightarrow>
               (case call_resfn ev App_step (app_step a) s of
                  Inl e \<Rightarrow> Inl e
                | Inr (r, s1) \<Rightarrow>
                    let s2 = s1\<lparr> aoapps_mngr_error := r \<rparr>;
                        s3 = (if aoapps_mngr_error s2 \<noteq> aoresult_ok
                              then s2\<lparr> aoapps_mngr_state := AOAPPS_MNGR_STATE_ERROR \<rparr> else s2)
                    in Inr (aoapps_mngr_error s3, s3)))
      | AOAPPS_MNGR_STATE_ERROR \<Rightarrow> Inr (aoapps_mngr_error s, s))"

subsection \<open>Start, stop, switch and step\<close>

definition aoapps_mngr_start :: "env \<Rightarrow> int \<Rightarrow> mngr \<Rightarrow> fault + mngr" where
  "aoapps_mngr_start ev appix s =
     (if \<not> aoapps_mngr_count s > 0 then Inl (Assert_failed 272)
      else if \<not> (\<not> aoapps_mngr_moderun s \<noteq> 0) then Inl (Assert_failed 274)
      else if \<not> (0 \<le> appix \<and> appix < aoapps_mngr_count s) then Inl (Assert_failed 276)
      else
        let s1 = s\<lparr> aoapps_mngr_appix := appix \<rparr>
        in case cur_app s1 of
             Inl e \<Rightarrow> Inl e
           | Inr a \<Rightarrow>
               let s2 = emit (Oled_state (app_oled a) (app_xlbl a) (app_ylbl a)) s1;
                   s3 = s2\<lparr> aoapps_mngr_moderun := 1 \<rparr>;
                   s4 = emit (Led_off [AOUI32_LED_GRN, AOUI32_LED_RED]) s3;
                   s5 = emit (Led_on [AOUI32_LED_GRN]) s4;
                   (t, s6) = millis ev s5;
                   s7 = s6\<lparr> aoapps_mngr_lastgrn := t \<rparr>
               in (case (if app_flags a AND AOAPPS_MNGR_FLAGS_WITHTOPO \<noteq> 0
                         then Inr (aoapps_mngr_startwithtopo s7)
                         else call_resfn ev App_start (app_start a) s7) of
                     Inl e \<Rightarrow> Inl e
                   | Inr (r, s8) \<Rightarrow> aoapps_mngr_showstatus ev (s8\<lparr> aoapps_mngr_result := r \<rparr>)))"

definition aoapps_mngr_stop :: "mngr \<Rightarrow> fault + mngr" where
  "aoapps_mngr_stop s =
     (if \<not> aoapps_mngr_moderun s \<noteq> 0 then Inl (Assert_failed 350)
      else case cur_app s of
             Inl e \<Rightarrow> Inl e
           | Inr a \<Rightarrow>
               (case call_stopfn (app_stop a) s of
                  Inl e \<Rightarrow> Inl e
                | Inr s1 \<Rightarrow> Inr (s1\<lparr> aoapps_mngr_moderun := 0 \<rparr>)))"

definition aoapps_mngr_switch :: "env \<Rightarrow> int \<Rightarrow> mngr \<Rightarrow> fault + mngr" where
  "aoapps_mngr_switch ev appix s =
     (case aoapps_mngr_stop s of
        Inl e \<Rightarrow> Inl e
      | Inr s1 \<Rightarrow> aoapps_mngr_start ev appix s1)"

text \<open>
  Line 383. C's \<^verbatim>\<open>%\<close> truncates towards zero (\<open>smod\<close>), and with a zero divisor it is
  undefined: that case is the fault \<open>Div_by_zero\<close>.
\<close>

definition aoapps_mngr_switchnext :: "env \<Rightarrow> mngr \<Rightarrow> fault + mngr" where
  "aoapps_mngr_switchnext ev s =
     (if aoapps_mngr_count s - 1 = 0 then Inl Div_by_zero
      else aoapps_mngr_switch ev (aoapps_mngr_appix s smod (aoapps_mngr_count s - 1) + 1) s)"

text \<open>Lines 325 to 329: the step of the app itself, through the sub-machine when flagged.\<close>

definition aoapps_mngr_step_app :: "env \<Rightarrow> aoapps_mngr_app_t \<Rightarrow> mngr \<Rightarrow> fault + (aoresult \<times> mngr)" where
  "aoapps_mngr_step_app ev a s =
     (if app_flags a AND AOAPPS_MNGR_FLAGS_WITHTOPO \<noteq> 0
      then aoapps_mngr_stepwithtopo ev s
      else call_resfn ev App_step (app_step a) s)"

definition aoapps_mngr_step :: "env \<Rightarrow> mngr \<Rightarrow> fault + mngr" where
  "aoapps_mngr_step ev s =
     (if \<not> aoapps_mngr_moderun s \<noteq> 0 then Inl (Assert_failed 314)
      else case cur_app s of
             Inl e \<Rightarrow> Inl e
           | Inr a \<Rightarrow>
               if aoapps_mngr_result s \<noteq> aoresult_ok then
                 (if app_flags a AND AOAPPS_MNGR_FLAGS_NEXTONERR \<noteq> 0 then
                    let (t, s1) = millis ev s
                    in if t - aoapps_mngr_lasterror s1 > AOAPPS_MNGR_ERROR_MS
                       then aoapps_mngr_switchnext ev (emit Serial_nextonerr s1)
                       else Inr s1
                  else Inr s)
               else
                 (case aoapps_mngr_step_app ev a s of
                    Inl e \<Rightarrow> Inl e
                  | Inr (r, s1) \<Rightarrow>
                      let s2 = s1\<lparr> aoapps_mngr_result := r \<rparr>;
                          (r', s3) =
                            (if aoapps_mngr_result s2 = aoresult_ok \<and>
                                app_flags a AND AOAPPS_MNGR_FLAGS_WITHREPAIR \<noteq> 0
                             then aoapps_mngr_repair ev s2
                             else (aoapps_mngr_result s2, s2))
                      in aoapps_mngr_showstatus ev (s3\<lparr> aoapps_mngr_result := r' \<rparr>)))"

subsection \<open>Sequences of calls, observations and well-formed states\<close>

text \<open>One call after another: a fault ends the run, as an abort does.\<close>

definition and_then :: "fault + 'a \<Rightarrow> ('a \<Rightarrow> fault + 'b) \<Rightarrow> fault + 'b" where
  "and_then m f = (case m of Inl e \<Rightarrow> Inl e | Inr x \<Rightarrow> f x)"

fun aoapps_mngr_steps :: "env \<Rightarrow> nat \<Rightarrow> mngr \<Rightarrow> fault + mngr" where
  "aoapps_mngr_steps ev 0 s = Inr s"
| "aoapps_mngr_steps ev (Suc n) s = and_then (aoapps_mngr_step ev s) (aoapps_mngr_steps ev n)"

text \<open>The two repair telegrams among the logged calls.\<close>

fun is_broadcast :: "event \<Rightarrow> bool" where
  "is_broadcast (Send_clrerror a) = True"
| "is_broadcast (Send_goactive a) = True"
| "is_broadcast e = False"

fun is_app_start :: "event \<Rightarrow> bool" where
  "is_app_start (App_start f) = True"
| "is_app_start e = False"

text \<open>The calls logged after the first \<open>n\<close> ones.\<close>

definition events_since :: "mngr \<Rightarrow> mngr \<Rightarrow> event list" where
  "events_since s s' = drop (length (trace s)) (trace s')"

text \<open>
  The result that \<open>aoapps_mngr_start\<close> latches for the app \<open>a\<close> when the log before the call
  is \<open>tr\<close>: ok for an app with a topology build (line 466), else what its start answers.
\<close>

definition start_latch :: "env \<Rightarrow> aoapps_mngr_app_t \<Rightarrow> event list \<Rightarrow> aoresult" where
  "start_latch ev a tr =
     (if app_flags a AND AOAPPS_MNGR_FLAGS_WITHTOPO \<noteq> 0 then aoresult_ok
      else case app_start a of
             Resfn_extern n \<Rightarrow>
               env_result ev (tr @ [Oled_state (app_oled a) (app_xlbl a) (app_ylbl a),
                 Led_off [AOUI32_LED_GRN, AOUI32_LED_RED], Led_on [AOUI32_LED_GRN], Millis,
                 App_start (app_start a)])
           | _ \<Rightarrow> aoresult_ok)"

text \<open>
  The outside calls that \<open>aoapps_mngr_start\<close> makes for the app \<open>a\<close> before it shows the
  status (lines 279 to 294): the OLED state, the two LED calls, one clock read, and then
  either the start of the topology build or the app's own start handler.
\<close>

definition start_calls :: "aoapps_mngr_app_t \<Rightarrow> event list" where
  "start_calls a =
     [Oled_state (app_oled a) (app_xlbl a) (app_ylbl a),
      Led_off [AOUI32_LED_GRN, AOUI32_LED_RED], Led_on [AOUI32_LED_GRN], Millis] @
     (if app_flags a AND AOAPPS_MNGR_FLAGS_WITHTOPO \<noteq> 0 then [Topo_build_start]
      else [App_start (app_start a)])"

text \<open>The calls of \<open>aoapps_mngr_showstatus\<close>: clock, LEDs, Serial and OLED message.\<close>

fun is_status_call :: "event \<Rightarrow> bool" where
  "is_status_call Millis = True"
| "is_status_call (Led_on l) = True"
| "is_status_call (Led_off l) = True"
| "is_status_call (Led_toggle l) = True"
| "is_status_call (Oled_msg r) = True"
| "is_status_call (Serial_error n r) = True"
| "is_status_call e = False"

text \<open>
  The preconditions of a registration, one by one as the documentation of
  \<^verbatim>\<open>aoapps_mngr_register\<close> (lines 84 to 139) and its header comment give them: a free slot;
  a name that is present and made of alphanumeric characters; display name, button labels
  and the three handlers present; flags within the defined flag bits; command handler and
  help text both present or both absent. This predicate does not look at the code of the
  function: the theorem of claim C4 compares the two.
\<close>

definition registration_valid ::
  "string option \<Rightarrow> string option \<Rightarrow> string option \<Rightarrow> string option \<Rightarrow> 32 word \<Rightarrow>
   resfn \<Rightarrow> resfn \<Rightarrow> stopfn \<Rightarrow> cmdfn \<Rightarrow> string option \<Rightarrow> mngr \<Rightarrow> bool" where
  "registration_valid name oled xlbl ylbl flags start step stop cmd help s =
     (aoapps_mngr_app_count s < 8 \<and>
      (case name of None \<Rightarrow> False
       | Some nm \<Rightarrow> list_all isalnum (takeWhile (\<lambda>c. c \<noteq> CHR 0x00) nm)) \<and>
      oled \<noteq> None \<and> xlbl \<noteq> None \<and> ylbl \<noteq> None \<and>
      start \<noteq> Resfn_null \<and> step \<noteq> Resfn_null \<and> stop \<noteq> Stopfn_null \<and>
      flags OR AOAPPS_MNGR_FLAGS_ALL = AOAPPS_MNGR_FLAGS_ALL \<and>
      ((cmd = Cmdfn_null) = (help = None)))"

text \<open>
  What the assertions of registration and start establish: a table of 8 slots of which
  the first \<open>count\<close> hold registered apps (with handlers), and a current index inside them.
\<close>

definition app_registered :: "aoapps_mngr_app_t \<Rightarrow> bool" where
  "app_registered a =
     (app_start a \<noteq> Resfn_null \<and> app_step a \<noteq> Resfn_null \<and> app_stop a \<noteq> Stopfn_null)"

definition mngr_wf :: "mngr \<Rightarrow> bool" where
  "mngr_wf s =
     (length (aoapps_mngr_apps s) = 8 \<and>
      0 < aoapps_mngr_count s \<and> aoapps_mngr_count s \<le> AOAPPS_MNGR_REGISTRATION_SLOTS \<and>
      0 \<le> aoapps_mngr_appix s \<and> aoapps_mngr_appix s < aoapps_mngr_count s \<and>
      list_all app_registered (take (nat (aoapps_mngr_count s)) (aoapps_mngr_apps s)))"

subsection \<open>Concrete environments and states\<close>

definition quiet_env :: env where
  "quiet_env = \<lparr> env_result = (\<lambda>tr. aoresult_ok), env_done = (\<lambda>tr. True),
     env_millis = (\<lambda>tr. 0), env_numtriplets = (\<lambda>tr. 0) \<rparr>"

text \<open>The clock reads \<open>t\<close>; the build is done or not; every call answering a result is ok.\<close>

definition clock_env :: "32 word \<Rightarrow> bool \<Rightarrow> env" where
  "clock_env t d = \<lparr> env_result = (\<lambda>tr. aoresult_ok), env_done = (\<lambda>tr. d),
     env_millis = (\<lambda>tr. t), env_numtriplets = (\<lambda>tr. 0) \<rparr>"

text \<open>As \<open>clock_env\<close>, but the call \<open>e\<close> answers the error \<open>r\<close>.\<close>

definition fail_env :: "32 word \<Rightarrow> bool \<Rightarrow> event \<Rightarrow> aoresult \<Rightarrow> env" where
  "fail_env t d e r = \<lparr> env_result = (\<lambda>tr. if tr \<noteq> [] \<and> last tr = e then r else aoresult_ok),
     env_done = (\<lambda>tr. d), env_millis = (\<lambda>tr. t), env_numtriplets = (\<lambda>tr. 0) \<rparr>"

definition voidapp :: aoapps_mngr_app_t where
  "voidapp = \<lparr> app_name = Some ''voidapp'', app_oled = Some ''USB command'',
     app_xlbl = Some ''--'', app_ylbl = Some ''--'', app_flags = 0,
     app_start = Voidapp_start, app_step = Voidapp_step, app_stop = Voidapp_stop,
     app_cmd = Cmdfn_null, app_help = None \<rparr>"

definition demo_app :: "32 word \<Rightarrow> aoapps_mngr_app_t" where
  "demo_app fl = \<lparr> app_name = Some ''demo'', app_oled = Some ''Demo app'',
     app_xlbl = Some ''x'', app_ylbl = Some ''y'', app_flags = fl,
     app_start = Resfn_extern 1, app_step = Resfn_extern 2, app_stop = Stopfn_extern 3,
     app_cmd = Cmdfn_null, app_help = None \<rparr>"

text \<open>The state after \<open>init\<close> with the clock at 0: only the void app, nothing running.\<close>

definition init_mngr :: mngr where
  "init_mngr = \<lparr> aoapps_mngr_count = 1, aoapps_mngr_apps = voidapp # replicate 7 zero_app,
     aoapps_mngr_appix = 0, aoapps_mngr_moderun = 0, aoapps_mngr_result = aoresult_ok,
     aoapps_mngr_lastgrn = 0, aoapps_mngr_lastrepair = 0, aoapps_mngr_lasterror = 0,
     aoapps_mngr_state = AOAPPS_MNGR_STATE_TOPOBUILD, aoapps_mngr_error = aoresult_ok,
     trace = [Millis, Millis, Millis] \<rparr>"

text \<open>
  Three apps after the void app, the last one current and running without error.
\<close>

definition quad_mngr :: mngr where
  "quad_mngr = \<lparr> aoapps_mngr_count = 4,
     aoapps_mngr_apps = voidapp # demo_app 0 # demo_app AOAPPS_MNGR_FLAGS_WITHTOPO #
       demo_app AOAPPS_MNGR_FLAGS_NEXTONERR # replicate 4 zero_app,
     aoapps_mngr_appix = 3, aoapps_mngr_moderun = 1, aoapps_mngr_result = aoresult_ok,
     aoapps_mngr_lastgrn = 0, aoapps_mngr_lastrepair = 0, aoapps_mngr_lasterror = 0,
     aoapps_mngr_state = AOAPPS_MNGR_STATE_TOPOBUILD, aoapps_mngr_error = aoresult_ok,
     trace = [] \<rparr>"

text \<open>
  The void app and one app with flags \<open>fl\<close> registered, the latter current and running
  with latch \<open>r\<close>, all timestamps 0, nothing logged yet.
\<close>

definition demo_mngr :: "32 word \<Rightarrow> aoresult \<Rightarrow> mngr" where
  "demo_mngr fl r = \<lparr> aoapps_mngr_count = 2,
     aoapps_mngr_apps = voidapp # demo_app fl # replicate 6 zero_app,
     aoapps_mngr_appix = 1, aoapps_mngr_moderun = 1, aoapps_mngr_result = r,
     aoapps_mngr_lastgrn = 0, aoapps_mngr_lastrepair = 0, aoapps_mngr_lasterror = 0,
     aoapps_mngr_state = AOAPPS_MNGR_STATE_TOPOBUILD, aoapps_mngr_error = aoresult_ok,
     trace = [] \<rparr>"

section \<open>Basic facts about the calls\<close>

lemma millis_eq:
  "millis ev s = (env_millis ev (trace s @ [Millis]), s\<lparr> trace := trace s @ [Millis] \<rparr>)"
  by (simp add: millis_def emit_def)

lemma call_result_eq:
  "call_result ev e s = (env_result ev (trace s @ [e]), s\<lparr> trace := trace s @ [e] \<rparr>)"
  by (simp add: call_result_def emit_def)

lemma cur_app_upd [simp]:
  "cur_app (s\<lparr> trace := tr \<rparr>) = cur_app s"
  "cur_app (s\<lparr> aoapps_mngr_moderun := m \<rparr>) = cur_app s"
  "cur_app (s\<lparr> aoapps_mngr_result := r \<rparr>) = cur_app s"
  "cur_app (s\<lparr> aoapps_mngr_lastgrn := t \<rparr>) = cur_app s"
  "cur_app (s\<lparr> aoapps_mngr_lastrepair := t \<rparr>) = cur_app s"
  "cur_app (s\<lparr> aoapps_mngr_lasterror := t \<rparr>) = cur_app s"
  "cur_app (s\<lparr> aoapps_mngr_state := q \<rparr>) = cur_app s"
  "cur_app (s\<lparr> aoapps_mngr_error := r \<rparr>) = cur_app s"
  by (simp_all add: cur_app_def Let_def)

lemma cur_app_emit [simp]: "cur_app (emit e s) = cur_app s"
  by (simp add: emit_def)

lemma init_from_zero: "aoapps_mngr_init quiet_env zero_mngr = Inr init_mngr"
  by code_simp

lemma list_all_take_nth:
  assumes "list_all P (take n xs)" and "i < n" and "i < length xs"
  shows "P (xs ! i)"
proof -
  have "i < length (take n xs)" using assms by simp
  with assms(1) have "P (take n xs ! i)" by (simp add: list_all_length)
  with assms(2) show ?thesis by simp
qed

lemma call_resfn_eq:
  assumes "f \<noteq> Resfn_null"
  shows "call_resfn ev tag f s =
     Inr (case f of Resfn_extern n \<Rightarrow> env_result ev (trace s @ [tag f]) | _ \<Rightarrow> aoresult_ok,
          s\<lparr> trace := trace s @ [tag f] \<rparr>)"
  using assms by (cases f) (simp_all add: call_resfn_def call_result_eq emit_def)

lemma call_resfn_frame:
  assumes "call_resfn ev tag f s = Inr (r, s1)"
  shows "s1 = s\<lparr> trace := trace s @ [tag f] \<rparr>"
  using assms by (cases f) (auto simp: call_resfn_def call_result_eq emit_def)

lemma stop_eq:
  assumes "aoapps_mngr_moderun s \<noteq> 0" and "cur_app s = Inr a" and "app_stop a \<noteq> Stopfn_null"
  shows "aoapps_mngr_stop s =
     Inr (s\<lparr> aoapps_mngr_moderun := 0, trace := trace s @ [App_stop (app_stop a)] \<rparr>)"
  using assms by (cases "app_stop a") (simp_all add: aoapps_mngr_stop_def call_stopfn_def emit_def)

subsection \<open>The status display\<close>

lemma showstatus_error:
  assumes "aoapps_mngr_result s \<noteq> aoresult_ok" and "cur_app s = Inr a"
  shows "aoapps_mngr_showstatus ev s =
     Inr (s\<lparr> aoapps_mngr_lasterror := env_millis ev (trace s @ [Millis]),
            trace := trace s @ [Millis, Led_off [AOUI32_LED_GRN], Led_on [AOUI32_LED_RED],
                       Serial_error (app_name a) (aoapps_mngr_result s),
                       Oled_msg (aoapps_mngr_result s)] \<rparr>)"
  using assms by (simp add: aoapps_mngr_showstatus_def millis_eq emit_def)

lemma showstatus_ok:
  assumes "aoapps_mngr_result s = aoresult_ok"
  shows "aoapps_mngr_showstatus ev s =
     Inr (if env_millis ev (trace s @ [Millis]) - aoapps_mngr_lastgrn s > AOAPPS_MNGR_HEARTBEAT_MS
          then s\<lparr> aoapps_mngr_lastgrn :=
                    env_millis ev (trace s @ [Millis, Led_toggle [AOUI32_LED_GRN], Millis]),
                  trace := trace s @ [Millis, Led_toggle [AOUI32_LED_GRN], Millis] \<rparr>
          else s\<lparr> trace := trace s @ [Millis] \<rparr>)"
  using assms by (simp add: aoapps_mngr_showstatus_def millis_eq emit_def)

lemma showstatus_eq:
  assumes "cur_app s = Inr a"
  shows "aoapps_mngr_showstatus ev s =
     Inr (if aoapps_mngr_result s \<noteq> aoresult_ok
          then s\<lparr> aoapps_mngr_lasterror := env_millis ev (trace s @ [Millis]),
                 trace := trace s @ [Millis, Led_off [AOUI32_LED_GRN], Led_on [AOUI32_LED_RED],
                       Serial_error (app_name a) (aoapps_mngr_result s),
                       Oled_msg (aoapps_mngr_result s)] \<rparr>
          else if env_millis ev (trace s @ [Millis]) - aoapps_mngr_lastgrn s > AOAPPS_MNGR_HEARTBEAT_MS
          then s\<lparr> aoapps_mngr_lastgrn :=
                    env_millis ev (trace s @ [Millis, Led_toggle [AOUI32_LED_GRN], Millis]),
                  trace := trace s @ [Millis, Led_toggle [AOUI32_LED_GRN], Millis] \<rparr>
          else s\<lparr> trace := trace s @ [Millis] \<rparr>)"
  using assms by (simp add: showstatus_error showstatus_ok)

subsection \<open>The sub-machine for apps with a topology build\<close>

lemma topobuild_not_done:
  assumes "aoapps_mngr_state s = AOAPPS_MNGR_STATE_TOPOBUILD"
    and "\<not> env_done ev (trace s @ [Topo_build_done])"
  shows "aoapps_mngr_stepwithtopo ev s =
     Inr (aoresult_ok,
       (let r = env_result ev (trace s @ [Topo_build_done, Topo_build_step])
        in if r \<noteq> aoresult_ok
           then s\<lparr> aoapps_mngr_state := AOAPPS_MNGR_STATE_ERROR, aoapps_mngr_error := r,
                  trace := trace s @ [Topo_build_done, Topo_build_step] \<rparr>
           else s\<lparr> aoapps_mngr_error := r,
                  trace := trace s @ [Topo_build_done, Topo_build_step] \<rparr>))"
  using assms
  by (simp add: aoapps_mngr_stepwithtopo_def aomw_topo_build_done_def call_result_eq emit_def Let_def)

lemma topo_error_absorbs:
  assumes "aoapps_mngr_state s = AOAPPS_MNGR_STATE_ERROR"
  shows "aoapps_mngr_stepwithtopo ev s = Inr (aoapps_mngr_error s, s)"
  using assms by (simp add: aoapps_mngr_stepwithtopo_def)

text \<open>
  The step that finds the build done: the app's start is called once, its result is
  returned, and the state after it is \<open>APPANIM\<close> whatever that result is (line 482
  overwrites the \<open>ERROR\<close> of line 481).
\<close>

lemma topobuild_done:
  assumes "aoapps_mngr_state s = AOAPPS_MNGR_STATE_TOPOBUILD"
    and "env_done ev (trace s @ [Topo_build_done])"
    and "cur_app s = Inr a" and "app_start a = Resfn_extern k"
  shows "aoapps_mngr_stepwithtopo ev s =
     (let tr = trace s @ [Topo_build_done, Topo_numtriplets,
                 Serial_starting (app_name a)
                   (env_numtriplets ev (trace s @ [Topo_build_done, Topo_numtriplets])),
                 App_start (app_start a)];
          r = env_result ev tr
      in Inr (r, s\<lparr> aoapps_mngr_state := AOAPPS_MNGR_STATE_APPANIM, aoapps_mngr_error := r,
                     trace := tr \<rparr>))"
  using assms
  by (simp add: aoapps_mngr_stepwithtopo_def aomw_topo_build_done_def aomw_topo_numtriplets_def
      call_resfn_def call_result_eq emit_def Let_def)

lemma step_latched:
  assumes "aoapps_mngr_moderun s \<noteq> 0" and "cur_app s = Inr a"
    and "aoapps_mngr_result s \<noteq> aoresult_ok"
    and "app_flags a AND AOAPPS_MNGR_FLAGS_NEXTONERR = 0"
  shows "aoapps_mngr_step ev s = Inr s"
  using assms by (simp add: aoapps_mngr_step_def)

subsection \<open>Starting and switching in a well-formed state\<close>

lemma start_ok:
  assumes "length (aoapps_mngr_apps s) = 8"
    and "list_all app_registered (take (nat (aoapps_mngr_count s)) (aoapps_mngr_apps s))"
    and "aoapps_mngr_count s \<le> 8"
    and "aoapps_mngr_moderun s = 0" and "0 \<le> k" and "k < aoapps_mngr_count s"
  shows "\<exists>s'. aoapps_mngr_start ev k s = Inr s' \<and> aoapps_mngr_appix s' = k \<and>
     aoapps_mngr_moderun s' = 1 \<and> aoapps_mngr_count s' = aoapps_mngr_count s \<and>
     aoapps_mngr_apps s' = aoapps_mngr_apps s \<and>
     aoapps_mngr_result s' = start_latch ev (aoapps_mngr_apps s ! nat k) (trace s) \<and>
     (\<exists>es. trace s' = trace s @ es \<and> filter is_broadcast es = [])"
proof -
  let ?a = "aoapps_mngr_apps s ! nat k"
  have ca: "cur_app (s\<lparr> aoapps_mngr_appix := k \<rparr>) = Inr ?a"
    using assms by (simp add: cur_app_def)
  have "app_registered ?a"
    using list_all_take_nth [OF assms(2), of "nat k"] assms by simp
  then have nn: "app_start ?a \<noteq> Resfn_null" by (simp add: app_registered_def)
  show ?thesis
  proof (cases "app_flags ?a AND AOAPPS_MNGR_FLAGS_WITHTOPO \<noteq> 0")
    case True
    show ?thesis
      using assms True ca
      by (simp add: aoapps_mngr_start_def millis_eq emit_def aoapps_mngr_startwithtopo_def Let_def
          showstatus_eq [where a = ?a] start_latch_def)
  next
    case False
    show ?thesis
      using assms False ca nn
      by (cases "app_start ?a")
         (simp_all add: aoapps_mngr_start_def millis_eq emit_def Let_def call_resfn_eq
          showstatus_eq [where a = ?a] start_latch_def)
  qed
qed

lemma wf_cur_app:
  assumes "mngr_wf s"
  shows "cur_app s = Inr (aoapps_mngr_apps s ! nat (aoapps_mngr_appix s))"
    and "app_registered (aoapps_mngr_apps s ! nat (aoapps_mngr_appix s))"
proof -
  show "cur_app s = Inr (aoapps_mngr_apps s ! nat (aoapps_mngr_appix s))"
    using assms by (simp add: mngr_wf_def cur_app_def Let_def AOAPPS_MNGR_REGISTRATION_SLOTS_def)
  have "nat (aoapps_mngr_appix s) < nat (aoapps_mngr_count s)"
    and "nat (aoapps_mngr_appix s) < length (aoapps_mngr_apps s)"
    and "list_all app_registered (take (nat (aoapps_mngr_count s)) (aoapps_mngr_apps s))"
    using assms by (auto simp: mngr_wf_def AOAPPS_MNGR_REGISTRATION_SLOTS_def)
  then show "app_registered (aoapps_mngr_apps s ! nat (aoapps_mngr_appix s))"
    using list_all_take_nth by blast
qed

lemma switch_ok:
  assumes "mngr_wf s" and "aoapps_mngr_moderun s \<noteq> 0" and "0 \<le> k" and "k < aoapps_mngr_count s"
  shows "\<exists>s' es. aoapps_mngr_switch ev k s = Inr s' \<and> aoapps_mngr_appix s' = k \<and>
     aoapps_mngr_moderun s' = 1 \<and> aoapps_mngr_count s' = aoapps_mngr_count s \<and>
     aoapps_mngr_apps s' = aoapps_mngr_apps s \<and>
     aoapps_mngr_result s' =
       start_latch ev (aoapps_mngr_apps s ! nat k)
         (trace s @ [App_stop (app_stop (aoapps_mngr_apps s ! nat (aoapps_mngr_appix s)))]) \<and>
     trace s' = trace s @ App_stop (app_stop (aoapps_mngr_apps s ! nat (aoapps_mngr_appix s))) # es"
proof -
  let ?a = "aoapps_mngr_apps s ! nat (aoapps_mngr_appix s)"
  have ca: "cur_app s = Inr ?a" by (rule wf_cur_app [OF assms(1)])
  have nn: "app_stop ?a \<noteq> Stopfn_null"
    using wf_cur_app(2) [OF assms(1)] by (simp add: app_registered_def)
  let ?s1 = "s\<lparr> aoapps_mngr_moderun := 0, trace := trace s @ [App_stop (app_stop ?a)] \<rparr>"
  have stop: "aoapps_mngr_stop s = Inr ?s1"
    by (rule stop_eq [OF assms(2) ca nn])
  have pre: "length (aoapps_mngr_apps ?s1) = 8"
    "list_all app_registered (take (nat (aoapps_mngr_count ?s1)) (aoapps_mngr_apps ?s1))"
    "aoapps_mngr_count ?s1 \<le> 8" "aoapps_mngr_moderun ?s1 = 0"
    using assms(1) by (simp_all add: mngr_wf_def AOAPPS_MNGR_REGISTRATION_SLOTS_def)
  have kk: "k < aoapps_mngr_count ?s1" using assms(4) by simp
  from start_ok [OF pre assms(3) kk, of ev]
  obtain s' es where "aoapps_mngr_start ev k ?s1 = Inr s'" "aoapps_mngr_appix s' = k"
    "aoapps_mngr_moderun s' = 1" "aoapps_mngr_count s' = aoapps_mngr_count ?s1"
    "aoapps_mngr_apps s' = aoapps_mngr_apps ?s1"
    "aoapps_mngr_result s' = start_latch ev (aoapps_mngr_apps ?s1 ! nat k) (trace ?s1)"
    "trace s' = trace ?s1 @ es"
    by blast
  then show ?thesis
    by (simp add: aoapps_mngr_switch_def stop)
qed

lemma switchnext_ok:
  assumes "mngr_wf s" and "aoapps_mngr_moderun s \<noteq> 0" and "aoapps_mngr_count s > 1"
  shows "\<exists>s' es. aoapps_mngr_switchnext ev s = Inr s' \<and>
     aoapps_mngr_appix s' = aoapps_mngr_appix s mod (aoapps_mngr_count s - 1) + 1 \<and>
     1 \<le> aoapps_mngr_appix s' \<and> aoapps_mngr_appix s' < aoapps_mngr_count s' \<and>
     aoapps_mngr_moderun s' = 1 \<and> aoapps_mngr_count s' = aoapps_mngr_count s \<and>
     aoapps_mngr_apps s' = aoapps_mngr_apps s \<and>
     aoapps_mngr_result s' =
       start_latch ev (aoapps_mngr_apps s ! nat (aoapps_mngr_appix s mod (aoapps_mngr_count s - 1) + 1))
         (trace s @ [App_stop (app_stop (aoapps_mngr_apps s ! nat (aoapps_mngr_appix s)))]) \<and>
     trace s' = trace s @ App_stop (app_stop (aoapps_mngr_apps s ! nat (aoapps_mngr_appix s))) # es"
proof -
  let ?k = "aoapps_mngr_appix s mod (aoapps_mngr_count s - 1) + 1"
  have c: "aoapps_mngr_count s > 1" by (rule assms(3))
  have ix: "0 \<le> aoapps_mngr_appix s" using assms(1) by (simp add: mngr_wf_def)
  have sm: "aoapps_mngr_appix s smod (aoapps_mngr_count s - 1)
      = aoapps_mngr_appix s mod (aoapps_mngr_count s - 1)"
    using c ix by (simp add: signed_modulo_int_def sgn_if)
  have lo: "1 \<le> ?k" using c by simp
  have "aoapps_mngr_appix s mod (aoapps_mngr_count s - 1) < aoapps_mngr_count s - 1"
    using c by (intro pos_mod_bound) simp
  then have hi: "?k < aoapps_mngr_count s" by linarith
  have k0: "0 \<le> ?k" using lo by linarith
  from switch_ok [OF assms(1,2) k0 hi, of ev]
  obtain s' es where sw: "aoapps_mngr_switch ev ?k s = Inr s'" "aoapps_mngr_appix s' = ?k"
     "aoapps_mngr_moderun s' = 1" "aoapps_mngr_count s' = aoapps_mngr_count s"
     "aoapps_mngr_apps s' = aoapps_mngr_apps s"
     "aoapps_mngr_result s' = start_latch ev (aoapps_mngr_apps s ! nat ?k)
         (trace s @ [App_stop (app_stop (aoapps_mngr_apps s ! nat (aoapps_mngr_appix s)))])"
     "trace s' = trace s @ App_stop (app_stop (aoapps_mngr_apps s ! nat (aoapps_mngr_appix s))) # es"
    by blast
  have "aoapps_mngr_switchnext ev s = Inr s'"
    using c sm sw(1) by (simp add: aoapps_mngr_switchnext_def)
  with sw lo hi show ?thesis by auto
qed

lemma start_log:
  assumes "length (aoapps_mngr_apps s) = 8"
    and "list_all app_registered (take (nat (aoapps_mngr_count s)) (aoapps_mngr_apps s))"
    and "aoapps_mngr_count s \<le> 8"
    and "aoapps_mngr_moderun s = 0" and "0 \<le> k" and "k < aoapps_mngr_count s"
  shows "\<exists>s' es. aoapps_mngr_start ev k s = Inr s' \<and>
     trace s' = trace s @ start_calls (aoapps_mngr_apps s ! nat k) @ es \<and>
     list_all is_status_call es \<and>
     (app_flags (aoapps_mngr_apps s ! nat k) AND AOAPPS_MNGR_FLAGS_WITHTOPO \<noteq> 0 \<longrightarrow>
        aoapps_mngr_state s' = AOAPPS_MNGR_STATE_TOPOBUILD \<and> aoapps_mngr_error s' = aoresult_ok)"
proof -
  let ?a = "aoapps_mngr_apps s ! nat k"
  have ca: "cur_app (s\<lparr> aoapps_mngr_appix := k \<rparr>) = Inr ?a"
    using assms by (simp add: cur_app_def)
  have "app_registered ?a"
    using list_all_take_nth [OF assms(2), of "nat k"] assms by simp
  then have nn: "app_start ?a \<noteq> Resfn_null" by (simp add: app_registered_def)
  show ?thesis
  proof (cases "app_flags ?a AND AOAPPS_MNGR_FLAGS_WITHTOPO \<noteq> 0")
    case True
    show ?thesis
      using assms True ca
      by (simp add: aoapps_mngr_start_def millis_eq emit_def aoapps_mngr_startwithtopo_def Let_def
          showstatus_eq [where a = ?a] start_calls_def)
  next
    case False
    show ?thesis
      using assms False ca nn
      by (cases "app_start ?a")
         (simp_all add: aoapps_mngr_start_def millis_eq emit_def Let_def call_resfn_eq
          showstatus_eq [where a = ?a] start_calls_def)
  qed
qed

lemma switch_log:
  assumes "mngr_wf s" and "aoapps_mngr_moderun s \<noteq> 0" and "0 \<le> k" and "k < aoapps_mngr_count s"
  shows "\<exists>s' es. aoapps_mngr_switch ev k s = Inr s' \<and>
     trace s' = trace s @ [App_stop (app_stop (aoapps_mngr_apps s ! nat (aoapps_mngr_appix s)))] @
                 start_calls (aoapps_mngr_apps s ! nat k) @ es \<and>
     list_all is_status_call es \<and>
     (app_flags (aoapps_mngr_apps s ! nat k) AND AOAPPS_MNGR_FLAGS_WITHTOPO \<noteq> 0 \<longrightarrow>
        aoapps_mngr_state s' = AOAPPS_MNGR_STATE_TOPOBUILD \<and> aoapps_mngr_error s' = aoresult_ok)"
proof -
  let ?a = "aoapps_mngr_apps s ! nat (aoapps_mngr_appix s)"
  have ca: "cur_app s = Inr ?a" by (rule wf_cur_app [OF assms(1)])
  have nn: "app_stop ?a \<noteq> Stopfn_null"
    using wf_cur_app(2) [OF assms(1)] by (simp add: app_registered_def)
  let ?s1 = "s\<lparr> aoapps_mngr_moderun := 0, trace := trace s @ [App_stop (app_stop ?a)] \<rparr>"
  have stop: "aoapps_mngr_stop s = Inr ?s1"
    by (rule stop_eq [OF assms(2) ca nn])
  have pre: "length (aoapps_mngr_apps ?s1) = 8"
    "list_all app_registered (take (nat (aoapps_mngr_count ?s1)) (aoapps_mngr_apps ?s1))"
    "aoapps_mngr_count ?s1 \<le> 8" "aoapps_mngr_moderun ?s1 = 0"
    using assms(1) by (simp_all add: mngr_wf_def AOAPPS_MNGR_REGISTRATION_SLOTS_def)
  have kk: "k < aoapps_mngr_count ?s1" using assms(4) by simp
  from start_log [OF pre assms(3) kk, of ev]
  obtain s' es where st: "aoapps_mngr_start ev k ?s1 = Inr s'"
    and tr: "trace s' = trace ?s1 @ start_calls (aoapps_mngr_apps ?s1 ! nat k) @ es"
    and es: "list_all is_status_call es"
    and tp: "app_flags (aoapps_mngr_apps ?s1 ! nat k) AND AOAPPS_MNGR_FLAGS_WITHTOPO \<noteq> 0 \<longrightarrow>
        aoapps_mngr_state s' = AOAPPS_MNGR_STATE_TOPOBUILD \<and> aoapps_mngr_error s' = aoresult_ok"
    by blast
  have "aoapps_mngr_switch ev k s = Inr s'" by (simp add: aoapps_mngr_switch_def stop st)
  moreover have "trace s' = trace s @ [App_stop (app_stop ?a)] @ start_calls (aoapps_mngr_apps s ! nat k) @ es"
    using tr by simp
  moreover have "app_flags (aoapps_mngr_apps s ! nat k) AND AOAPPS_MNGR_FLAGS_WITHTOPO \<noteq> 0 \<longrightarrow>
        aoapps_mngr_state s' = AOAPPS_MNGR_STATE_TOPOBUILD \<and> aoapps_mngr_error s' = aoresult_ok"
    using tp by simp
  ultimately show ?thesis using es by blast
qed

text \<open>
  The whole effect of \<open>switchnext\<close> in a well-formed state with more than one app: the
  calls it makes, in order, and the state it leaves.
\<close>

lemma switchnext_full:
  assumes "mngr_wf s" and "aoapps_mngr_moderun s \<noteq> 0" and "aoapps_mngr_count s > 1"
  shows "\<exists>s' es. aoapps_mngr_switchnext ev s = Inr s' \<and>
     aoapps_mngr_appix s' = aoapps_mngr_appix s mod (aoapps_mngr_count s - 1) + 1 \<and>
     1 \<le> aoapps_mngr_appix s' \<and> aoapps_mngr_appix s' < aoapps_mngr_count s' \<and>
     aoapps_mngr_moderun s' = 1 \<and> aoapps_mngr_count s' = aoapps_mngr_count s \<and>
     aoapps_mngr_apps s' = aoapps_mngr_apps s \<and>
     aoapps_mngr_result s' =
       start_latch ev (aoapps_mngr_apps s ! nat (aoapps_mngr_appix s'))
         (trace s @ [App_stop (app_stop (aoapps_mngr_apps s ! nat (aoapps_mngr_appix s)))]) \<and>
     trace s' = trace s @ [App_stop (app_stop (aoapps_mngr_apps s ! nat (aoapps_mngr_appix s)))] @
                 start_calls (aoapps_mngr_apps s ! nat (aoapps_mngr_appix s')) @ es \<and>
     list_all is_status_call es \<and>
     (app_flags (aoapps_mngr_apps s ! nat (aoapps_mngr_appix s')) AND AOAPPS_MNGR_FLAGS_WITHTOPO \<noteq> 0 \<longrightarrow>
        aoapps_mngr_state s' = AOAPPS_MNGR_STATE_TOPOBUILD \<and> aoapps_mngr_error s' = aoresult_ok)"
proof -
  let ?k = "aoapps_mngr_appix s mod (aoapps_mngr_count s - 1) + 1"
  let ?stop = "App_stop (app_stop (aoapps_mngr_apps s ! nat (aoapps_mngr_appix s)))"
  have c: "aoapps_mngr_count s > 1" by (rule assms(3))
  have ix: "0 \<le> aoapps_mngr_appix s" using assms(1) by (simp add: mngr_wf_def)
  have sm: "aoapps_mngr_appix s smod (aoapps_mngr_count s - 1)
      = aoapps_mngr_appix s mod (aoapps_mngr_count s - 1)"
    using c ix by (simp add: signed_modulo_int_def sgn_if)
  have lo: "1 \<le> ?k" using c by simp
  have "aoapps_mngr_appix s mod (aoapps_mngr_count s - 1) < aoapps_mngr_count s - 1"
    using c by (intro pos_mod_bound) simp
  then have hi: "?k < aoapps_mngr_count s" by linarith
  have k0: "0 \<le> ?k" using lo by linarith
  have sn: "aoapps_mngr_switchnext ev s = aoapps_mngr_switch ev ?k s"
    using c sm by (simp add: aoapps_mngr_switchnext_def)
  from switch_ok [OF assms(1,2) k0 hi, of ev]
  obtain s' where sw: "aoapps_mngr_switch ev ?k s = Inr s'" and a: "aoapps_mngr_appix s' = ?k"
     and b: "aoapps_mngr_moderun s' = 1" "aoapps_mngr_count s' = aoapps_mngr_count s"
     "aoapps_mngr_apps s' = aoapps_mngr_apps s"
     "aoapps_mngr_result s' = start_latch ev (aoapps_mngr_apps s ! nat ?k) (trace s @ [?stop])"
    by blast
  from switch_log [OF assms(1,2) k0 hi, of ev] sw
  obtain es where l: "trace s' = trace s @ [?stop] @ start_calls (aoapps_mngr_apps s ! nat ?k) @ es"
     "list_all is_status_call es"
     "app_flags (aoapps_mngr_apps s ! nat ?k) AND AOAPPS_MNGR_FLAGS_WITHTOPO \<noteq> 0 \<longrightarrow>
        aoapps_mngr_state s' = AOAPPS_MNGR_STATE_TOPOBUILD \<and> aoapps_mngr_error s' = aoresult_ok"
    by auto
  have bounds: "1 \<le> aoapps_mngr_appix s'" "aoapps_mngr_appix s' < aoapps_mngr_count s'"
    using a b(2) lo hi by simp_all
  show ?thesis
    apply (rule exI [of _ s'])
    apply (rule exI [of _ es])
    using sn sw a b l bounds by simp
qed

lemma mngr_wf_trace [simp]: "mngr_wf (s\<lparr> trace := tr \<rparr>) = mngr_wf s"
  by (simp add: mngr_wf_def)

subsection \<open>Repair\<close>

lemma repair_eq:
  "aoapps_mngr_repair ev s =
     (if env_millis ev (trace s @ [Millis]) - aoapps_mngr_lastrepair s > AOAPPS_MNGR_REPAIR_MS then
        if env_result ev (trace s @ [Millis, Send_clrerror 0]) \<noteq> aoresult_ok
        then (env_result ev (trace s @ [Millis, Send_clrerror 0]),
              s\<lparr> trace := trace s @ [Millis, Send_clrerror 0] \<rparr>)
        else if env_result ev (trace s @ [Millis, Send_clrerror 0, Send_goactive 0]) \<noteq> aoresult_ok
        then (env_result ev (trace s @ [Millis, Send_clrerror 0, Send_goactive 0]),
              s\<lparr> trace := trace s @ [Millis, Send_clrerror 0, Send_goactive 0] \<rparr>)
        else (aoresult_ok,
              s\<lparr> trace := trace s @ [Millis, Send_clrerror 0, Send_goactive 0, Millis],
                 aoapps_mngr_lastrepair :=
                   env_millis ev (trace s @ [Millis, Send_clrerror 0, Send_goactive 0, Millis]) \<rparr>)
      else (aoresult_ok, s\<lparr> trace := trace s @ [Millis] \<rparr>))"
  by (simp add: aoapps_mngr_repair_def millis_eq call_result_eq Let_def)

lemma stepwithtopo_frame:
  assumes "aoapps_mngr_stepwithtopo ev s = Inr (r, s1)"
  shows "cur_app s1 = cur_app s \<and> aoapps_mngr_lastrepair s1 = aoapps_mngr_lastrepair s \<and>
     aoapps_mngr_lastgrn s1 = aoapps_mngr_lastgrn s \<and>
     (\<exists>es. trace s1 = trace s @ es \<and> filter is_broadcast es = [])"
proof (cases "aoapps_mngr_state s")
  case AOAPPS_MNGR_STATE_TOPOBUILD
  show ?thesis
  proof (cases "env_done ev (trace s @ [Topo_build_done])")
    case False
    from topobuild_not_done [OF AOAPPS_MNGR_STATE_TOPOBUILD False] assms
    show ?thesis by (auto simp: Let_def split: if_splits)
  next
    case True
    from assms AOAPPS_MNGR_STATE_TOPOBUILD True obtain a where a: "cur_app s = Inr a"
      by (cases "cur_app s") (simp_all add: aoapps_mngr_stepwithtopo_def aomw_topo_build_done_def emit_def)
    from assms AOAPPS_MNGR_STATE_TOPOBUILD True a obtain r4 s4 where
      c: "call_resfn ev App_start (app_start a)
            (s\<lparr> trace := trace s @ [Topo_build_done, Topo_numtriplets,
                 Serial_starting (app_name a) (env_numtriplets ev (trace s @ [Topo_build_done, Topo_numtriplets]))] \<rparr>)
          = Inr (r4, s4)"
      and s1: "s1 = s4\<lparr> aoapps_mngr_error := r4, aoapps_mngr_state := AOAPPS_MNGR_STATE_APPANIM \<rparr>"
      by (auto simp: aoapps_mngr_stepwithtopo_def aomw_topo_build_done_def aomw_topo_numtriplets_def
            emit_def Let_def split: sum.splits if_splits)
    show ?thesis
      by (simp add: s1 call_resfn_frame [OF c])
  qed
next
  case AOAPPS_MNGR_STATE_APPANIM
  from assms AOAPPS_MNGR_STATE_APPANIM obtain a where a: "cur_app s = Inr a"
    by (cases "cur_app s") (simp_all add: aoapps_mngr_stepwithtopo_def)
  from assms AOAPPS_MNGR_STATE_APPANIM a obtain r4 s4 where
    c: "call_resfn ev App_step (app_step a) s = Inr (r4, s4)"
    and s1: "s1 = s4\<lparr> aoapps_mngr_error := r4 \<rparr> \<or>
             s1 = s4\<lparr> aoapps_mngr_error := r4, aoapps_mngr_state := AOAPPS_MNGR_STATE_ERROR \<rparr>"
    by (auto simp: aoapps_mngr_stepwithtopo_def Let_def split: sum.splits if_splits)
  from s1 show ?thesis
    by (auto simp: call_resfn_frame [OF c])
next
  case AOAPPS_MNGR_STATE_ERROR
  with assms show ?thesis by (simp add: aoapps_mngr_stepwithtopo_def)
qed

lemma step_app_frame:
  assumes "aoapps_mngr_step_app ev a s = Inr (r, s1)"
  shows "cur_app s1 = cur_app s \<and> aoapps_mngr_lastrepair s1 = aoapps_mngr_lastrepair s \<and>
     aoapps_mngr_lastgrn s1 = aoapps_mngr_lastgrn s \<and>
     (\<exists>es. trace s1 = trace s @ es \<and> filter is_broadcast es = [])"
proof (cases "app_flags a AND AOAPPS_MNGR_FLAGS_WITHTOPO \<noteq> 0")
  case True
  with assms show ?thesis by (simp add: aoapps_mngr_step_app_def stepwithtopo_frame)
next
  case False
  with assms have "call_resfn ev App_step (app_step a) s = Inr (r, s1)"
    by (simp add: aoapps_mngr_step_app_def)
  from call_resfn_frame [OF this] show ?thesis by simp
qed

subsection \<open>Registration\<close>

lemma name_chars_ok_iff:
  "name_chars_ok cs = list_all isalnum (takeWhile (\<lambda>c. c \<noteq> CHR 0x00) cs)"
  by (induction cs) auto

lemma flags_subset_iff:
  "(0 = (fl AND NOT m)) = (fl OR m = m)" for fl m :: "32 word"
proof
  assume z: "0 = (fl AND NOT m)"
  have "fl OR m = (fl AND NOT m) OR m"
    by (rule bit_eqI) (auto simp add: bit_simps)
  also have "\<dots> = m" using z [symmetric] by simp
  finally show "fl OR m = m" .
next
  assume o: "fl OR m = m"
  have "fl AND NOT m = (fl OR m) AND NOT m"
    by (rule bit_eqI) (auto simp add: bit_simps)
  also have "\<dots> = 0" unfolding o by (rule bit_eqI) (auto simp add: bit_simps)
  finally show "0 = (fl AND NOT m)" by simp
qed

lemma register_assert_142:
  assumes "\<not> aoapps_mngr_count s < AOAPPS_MNGR_REGISTRATION_SLOTS"
  shows "aoapps_mngr_register name oled xlbl ylbl flags start step stop cmd help s = Inl (Assert_failed 142)"
  unfolding aoapps_mngr_register_def using assms by (simp only: simp_thms if_True if_False)

lemma register_assert_143:
  assumes "aoapps_mngr_count s < AOAPPS_MNGR_REGISTRATION_SLOTS"
    and "\<not> (name \<noteq> None \<and> oled \<noteq> None \<and> xlbl \<noteq> None \<and> ylbl \<noteq> None \<and>
         start \<noteq> Resfn_null \<and> step \<noteq> Resfn_null \<and> stop \<noteq> Stopfn_null)"
  shows "aoapps_mngr_register name oled xlbl ylbl flags start step stop cmd help s = Inl (Assert_failed 143)"
  unfolding aoapps_mngr_register_def using assms by (simp only: simp_thms if_True if_False)

lemma register_assert_144:
  assumes "aoapps_mngr_count s < AOAPPS_MNGR_REGISTRATION_SLOTS"
    and "name \<noteq> None \<and> oled \<noteq> None \<and> xlbl \<noteq> None \<and> ylbl \<noteq> None \<and>
         start \<noteq> Resfn_null \<and> step \<noteq> Resfn_null \<and> stop \<noteq> Stopfn_null"
    and "\<not> ((cmd = Cmdfn_null) = (help = None))"
  shows "aoapps_mngr_register name oled xlbl ylbl flags start step stop cmd help s = Inl (Assert_failed 144)"
  unfolding aoapps_mngr_register_def using assms by (simp only: simp_thms if_True if_False)

lemma register_assert_145:
  assumes "aoapps_mngr_count s < AOAPPS_MNGR_REGISTRATION_SLOTS"
    and "name \<noteq> None \<and> oled \<noteq> None \<and> xlbl \<noteq> None \<and> ylbl \<noteq> None \<and>
         start \<noteq> Resfn_null \<and> step \<noteq> Resfn_null \<and> stop \<noteq> Stopfn_null"
    and "(cmd = Cmdfn_null) = (help = None)"
    and "\<not> (0 = (flags AND NOT AOAPPS_MNGR_FLAGS_ALL))"
  shows "aoapps_mngr_register name oled xlbl ylbl flags start step stop cmd help s = Inl (Assert_failed 145)"
  unfolding aoapps_mngr_register_def using assms by (simp only: simp_thms if_True if_False)

lemma register_assert_147:
  assumes "aoapps_mngr_count s < AOAPPS_MNGR_REGISTRATION_SLOTS"
    and "name \<noteq> None \<and> oled \<noteq> None \<and> xlbl \<noteq> None \<and> ylbl \<noteq> None \<and>
         start \<noteq> Resfn_null \<and> step \<noteq> Resfn_null \<and> stop \<noteq> Stopfn_null"
    and "(cmd = Cmdfn_null) = (help = None)"
    and "0 = (flags AND NOT AOAPPS_MNGR_FLAGS_ALL)"
    and "\<not> name_chars_ok (the name)"
  shows "aoapps_mngr_register name oled xlbl ylbl flags start step stop cmd help s = Inl (Assert_failed 147)"
  unfolding aoapps_mngr_register_def using assms by (simp only: simp_thms if_True if_False)

lemma register_accepts:
  assumes "aoapps_mngr_count s < AOAPPS_MNGR_REGISTRATION_SLOTS"
    and "name \<noteq> None \<and> oled \<noteq> None \<and> xlbl \<noteq> None \<and> ylbl \<noteq> None \<and>
         start \<noteq> Resfn_null \<and> step \<noteq> Resfn_null \<and> stop \<noteq> Stopfn_null"
    and "(cmd = Cmdfn_null) = (help = None)"
    and "0 = (flags AND NOT AOAPPS_MNGR_FLAGS_ALL)"
    and "name_chars_ok (the name)"
    and "0 \<le> aoapps_mngr_count s" and "length (aoapps_mngr_apps s) = 8"
  shows "aoapps_mngr_register name oled xlbl ylbl flags start step stop cmd help s =
     Inr ((), s\<lparr> aoapps_mngr_count := aoapps_mngr_count s + 1,
              aoapps_mngr_apps := (aoapps_mngr_apps s)[nat (aoapps_mngr_count s) :=
                  \<lparr> app_name = name, app_oled = oled, app_xlbl = xlbl, app_ylbl = ylbl,
                    app_flags = flags, app_start = start, app_step = step, app_stop = stop,
                    app_cmd = cmd, app_help = help \<rparr>] \<rparr>)"
proof -
  have r: "aoapps_mngr_register name oled xlbl ylbl flags start step stop cmd help s =
     (let slot = aoapps_mngr_count s;
            s1 = s\<lparr> aoapps_mngr_count := aoapps_mngr_count s + 1 \<rparr>
        in if 0 \<le> slot \<and> slot < int (length (aoapps_mngr_apps s1))
           then Inr ((), s1\<lparr> aoapps_mngr_apps := (aoapps_mngr_apps s1)[nat slot :=
                  \<lparr> app_name = name, app_oled = oled, app_xlbl = xlbl, app_ylbl = ylbl,
                    app_flags = flags, app_start = start, app_step = step, app_stop = stop,
                    app_cmd = cmd, app_help = help \<rparr>] \<rparr>)
           else Inl Out_of_bounds)"
    unfolding aoapps_mngr_register_def using assms(1-5) by (simp only: simp_thms if_True if_False)
  show ?thesis
    unfolding r using assms(1,6,7) by (simp add: Let_def AOAPPS_MNGR_REGISTRATION_SLOTS_def)
qed

subsection \<open>Well-formed states are what the manager produces\<close>

lemma init_wf:
  assumes "length (aoapps_mngr_apps s) = 8"
  shows "\<exists>s'. aoapps_mngr_init ev s = Inr s' \<and> mngr_wf s' \<and>
     aoapps_mngr_count s' = 1 \<and> aoapps_mngr_moderun s' = 0 \<and> aoapps_mngr_result s' = aoresult_ok"
proof -
  let ?s1 = "s\<lparr> aoapps_mngr_count := 0, aoapps_mngr_appix := 0, aoapps_mngr_moderun := 0,
                  aoapps_mngr_result := aoresult_ok \<rparr>"
  have f: "0 = ((0::32 word) AND NOT AOAPPS_MNGR_FLAGS_ALL)" by simp
  have n: "name_chars_ok (the (Some ''voidapp''))" by (simp add: isalnum_def)
  have r: "aoapps_mngr_voidapp_register ?s1 =
     Inr ((), ?s1\<lparr> aoapps_mngr_count := aoapps_mngr_count ?s1 + 1,
              aoapps_mngr_apps := (aoapps_mngr_apps ?s1)[nat (aoapps_mngr_count ?s1) := voidapp] \<rparr>)"
    unfolding aoapps_mngr_voidapp_register_def voidapp_def
    by (rule register_accepts [OF _ _ _ f n])
       (simp_all add: AOAPPS_MNGR_REGISTRATION_SLOTS_def assms)
  have v: "app_registered voidapp" by (simp add: app_registered_def voidapp_def)
  obtain x xs where xs: "aoapps_mngr_apps s = x # xs" using assms by (cases "aoapps_mngr_apps s") auto
  show ?thesis
    using assms v
    by (simp add: aoapps_mngr_init_def r millis_eq mngr_wf_def AOAPPS_MNGR_REGISTRATION_SLOTS_def
        xs Let_def)
qed

lemma register_wf:
  assumes "mngr_wf s"
    and "aoapps_mngr_register name oled xlbl ylbl flags start step stop cmd help s = Inr (u, s')"
  shows "mngr_wf s'"
proof -
  let ?d = "\<lparr> app_name = name, app_oled = oled, app_xlbl = xlbl, app_ylbl = ylbl,
          app_flags = flags, app_start = start, app_step = step, app_stop = stop,
          app_cmd = cmd, app_help = help \<rparr>"
  let ?n = "nat (aoapps_mngr_count s)"
  from assms(2) have c: "aoapps_mngr_count s < 8" and d: "app_registered ?d"
    and s': "s' = s\<lparr> aoapps_mngr_count := aoapps_mngr_count s + 1,
                  aoapps_mngr_apps := (aoapps_mngr_apps s)[?n := ?d] \<rparr>"
    by (auto simp: aoapps_mngr_register_def AOAPPS_MNGR_REGISTRATION_SLOTS_def app_registered_def
          Let_def split: if_splits)
  from assms(1) have len: "length (aoapps_mngr_apps s) = 8" and pos: "0 < aoapps_mngr_count s"
    and ix: "0 \<le> aoapps_mngr_appix s" "aoapps_mngr_appix s < aoapps_mngr_count s"
    and reg: "list_all app_registered (take ?n (aoapps_mngr_apps s))"
    by (simp_all add: mngr_wf_def)
  have nlt: "?n < length (aoapps_mngr_apps s)" using c pos len by simp
  have "take (Suc ?n) ((aoapps_mngr_apps s)[?n := ?d]) = take ?n (aoapps_mngr_apps s) @ [?d]"
    using nlt by (simp add: take_Suc_conv_app_nth)
  moreover have "nat (aoapps_mngr_count s + 1) = Suc ?n" using pos by simp
  ultimately have "list_all app_registered
      (take (nat (aoapps_mngr_count s + 1)) ((aoapps_mngr_apps s)[?n := ?d]))"
    using reg d by simp
  then show ?thesis
    unfolding s' using len pos ix c
    by (simp add: mngr_wf_def AOAPPS_MNGR_REGISTRATION_SLOTS_def)
qed

lemma switch_wf:
  assumes "mngr_wf s" and "aoapps_mngr_moderun s \<noteq> 0" and "0 \<le> k" and "k < aoapps_mngr_count s"
  shows "\<exists>s'. aoapps_mngr_switch ev k s = Inr s' \<and> mngr_wf s' \<and> aoapps_mngr_moderun s' \<noteq> 0"
proof -
  from switch_ok [OF assms, of ev] obtain s' where
    "aoapps_mngr_switch ev k s = Inr s'" "aoapps_mngr_appix s' = k" "aoapps_mngr_moderun s' = 1"
    "aoapps_mngr_count s' = aoapps_mngr_count s" "aoapps_mngr_apps s' = aoapps_mngr_apps s"
    by blast
  with assms show ?thesis by (simp add: mngr_wf_def)
qed

text \<open>With exactly one registered app the remainder of line 383 has the divisor 0.\<close>

lemma switchnext_single_app:
  assumes "aoapps_mngr_count s = 1"
  shows "aoapps_mngr_switchnext ev s = Inl Div_by_zero"
  using assms by (simp add: aoapps_mngr_switchnext_def)

lemma stepwithtopo_core:
  assumes "aoapps_mngr_stepwithtopo ev s = Inr (r, s1)"
  shows "aoapps_mngr_count s1 = aoapps_mngr_count s \<and> aoapps_mngr_apps s1 = aoapps_mngr_apps s \<and>
     aoapps_mngr_appix s1 = aoapps_mngr_appix s \<and> aoapps_mngr_moderun s1 = aoapps_mngr_moderun s"
proof (cases "aoapps_mngr_state s")
  case AOAPPS_MNGR_STATE_TOPOBUILD
  show ?thesis
  proof (cases "env_done ev (trace s @ [Topo_build_done])")
    case False
    from topobuild_not_done [OF AOAPPS_MNGR_STATE_TOPOBUILD False] assms
    show ?thesis by (auto simp: Let_def split: if_splits)
  next
    case True
    from assms AOAPPS_MNGR_STATE_TOPOBUILD True obtain a where a: "cur_app s = Inr a"
      by (cases "cur_app s") (simp_all add: aoapps_mngr_stepwithtopo_def aomw_topo_build_done_def emit_def)
    from assms AOAPPS_MNGR_STATE_TOPOBUILD True a obtain r4 s4 where
      c: "call_resfn ev App_start (app_start a)
            (s\<lparr> trace := trace s @ [Topo_build_done, Topo_numtriplets,
                 Serial_starting (app_name a) (env_numtriplets ev (trace s @ [Topo_build_done, Topo_numtriplets]))] \<rparr>)
          = Inr (r4, s4)"
      and s1: "s1 = s4\<lparr> aoapps_mngr_error := r4, aoapps_mngr_state := AOAPPS_MNGR_STATE_APPANIM \<rparr>"
      by (auto simp: aoapps_mngr_stepwithtopo_def aomw_topo_build_done_def aomw_topo_numtriplets_def
            emit_def Let_def split: sum.splits if_splits)
    show ?thesis
      by (simp add: s1 call_resfn_frame [OF c])
  qed
next
  case AOAPPS_MNGR_STATE_APPANIM
  from assms AOAPPS_MNGR_STATE_APPANIM obtain a where a: "cur_app s = Inr a"
    by (cases "cur_app s") (simp_all add: aoapps_mngr_stepwithtopo_def)
  from assms AOAPPS_MNGR_STATE_APPANIM a obtain r4 s4 where
    c: "call_resfn ev App_step (app_step a) s = Inr (r4, s4)"
    and s1: "s1 = s4\<lparr> aoapps_mngr_error := r4 \<rparr> \<or>
             s1 = s4\<lparr> aoapps_mngr_error := r4, aoapps_mngr_state := AOAPPS_MNGR_STATE_ERROR \<rparr>"
    by (auto simp: aoapps_mngr_stepwithtopo_def Let_def split: sum.splits if_splits)
  from s1 show ?thesis
    by (auto simp: call_resfn_frame [OF c])
next
  case AOAPPS_MNGR_STATE_ERROR
  with assms show ?thesis by (simp add: aoapps_mngr_stepwithtopo_def)
qed

lemma step_app_wf:
  assumes "aoapps_mngr_step_app ev a s = Inr (r, s1)"
  shows "mngr_wf s1 = mngr_wf s \<and> aoapps_mngr_moderun s1 = aoapps_mngr_moderun s"
proof (cases "app_flags a AND AOAPPS_MNGR_FLAGS_WITHTOPO \<noteq> 0")
  case True
  with assms have "aoapps_mngr_stepwithtopo ev s = Inr (r, s1)"
    by (simp add: aoapps_mngr_step_app_def)
  from stepwithtopo_core [OF this] show ?thesis by (simp add: mngr_wf_def)
next
  case False
  with assms have "call_resfn ev App_step (app_step a) s = Inr (r, s1)"
    by (simp add: aoapps_mngr_step_app_def)
  from call_resfn_frame [OF this] show ?thesis by simp
qed

lemma mngr_wf_upd [simp]:
  "mngr_wf (s\<lparr> aoapps_mngr_result := r \<rparr>) = mngr_wf s"
  "mngr_wf (s\<lparr> aoapps_mngr_lastgrn := t \<rparr>) = mngr_wf s"
  "mngr_wf (s\<lparr> aoapps_mngr_lastrepair := t \<rparr>) = mngr_wf s"
  "mngr_wf (s\<lparr> aoapps_mngr_lasterror := t \<rparr>) = mngr_wf s"
  by (simp_all add: mngr_wf_def)

text \<open>
  A step of the manager in a well-formed state with a running app never fails, except
  for the division by zero of \<open>switchnext\<close>, and the state after it is well-formed and
  running.
\<close>

lemma step_wf:
  assumes "mngr_wf s" and "aoapps_mngr_moderun s \<noteq> 0" and "aoapps_mngr_step ev s = Inr s'"
  shows "mngr_wf s' \<and> aoapps_mngr_moderun s' \<noteq> 0"
proof -
  let ?a = "aoapps_mngr_apps s ! nat (aoapps_mngr_appix s)"
  have ca: "cur_app s = Inr ?a" by (rule wf_cur_app [OF assms(1)])
  show ?thesis
  proof (cases "aoapps_mngr_result s = aoresult_ok")
    case False
    show ?thesis
    proof (cases "app_flags ?a AND AOAPPS_MNGR_FLAGS_NEXTONERR \<noteq> 0 \<and>
        AOAPPS_MNGR_ERROR_MS < env_millis ev (trace s @ [Millis]) - aoapps_mngr_lasterror s")
      case True
      let ?s2 = "s\<lparr> trace := trace s @ [Millis, Serial_nextonerr] \<rparr>"
      from assms(2,3) ca False True have sn: "aoapps_mngr_switchnext ev ?s2 = Inr s'"
        by (simp add: aoapps_mngr_step_def millis_eq emit_def)
      have "aoapps_mngr_count s \<noteq> 1"
        using sn switchnext_single_app [of ?s2 ev] by auto
      with assms(1) have c: "aoapps_mngr_count ?s2 > 1" by (simp add: mngr_wf_def)
      have wf2: "mngr_wf ?s2" and run2: "aoapps_mngr_moderun ?s2 \<noteq> 0" using assms(1,2) by simp_all
      from switchnext_ok [OF wf2 run2 c, of ev] sn
      have "1 \<le> aoapps_mngr_appix s'" "aoapps_mngr_appix s' < aoapps_mngr_count s'"
        "aoapps_mngr_moderun s' = 1" "aoapps_mngr_count s' = aoapps_mngr_count s"
        "aoapps_mngr_apps s' = aoapps_mngr_apps s"
        by auto
      with assms(1) show ?thesis by (simp add: mngr_wf_def)
    next
      case no: False
      from assms(2,3) ca False no have "s' = s \<or> s' = s\<lparr> trace := trace s @ [Millis] \<rparr>"
        by (auto simp: aoapps_mngr_step_def millis_eq emit_def split: if_splits)
      with assms(1,2) show ?thesis by auto
    qed
  next
    case True
    from assms(2,3) ca True obtain r s1 where
      sa: "aoapps_mngr_step_app ev ?a s = Inr (r, s1)"
      by (cases "aoapps_mngr_step_app ev ?a s") (auto simp: aoapps_mngr_step_def)
    from step_app_frame [OF sa] ca have c1: "cur_app s1 = Inr ?a" by simp
    from step_app_wf [OF sa] assms(1,2) have w1: "mngr_wf s1" "aoapps_mngr_moderun s1 \<noteq> 0" by simp_all
    from assms(2,3) ca True sa have
      "s' \<in> {x. mngr_wf x \<and> aoapps_mngr_moderun x \<noteq> 0}"
      using w1 c1
      by (auto simp: aoapps_mngr_step_def Let_def repair_eq showstatus_eq [where a = ?a]
            split: if_splits)
    then show ?thesis by simp
  qed
qed

section \<open>The claims\<close>

text \<open>
  C1. In state \<open>TOPOBUILD\<close> with the build reported done, the step calls the app's start
  exactly once. The claim goes on: when that start fails, the sub-machine is in \<open>ERROR\<close>
  at the end of the step, so that the next step of the sub-machine returns the error
  without calling the app's step. The code does not do that. Evaluated for an app whose
  start answers error 1: the step returns error 1 after one call of start, but the state
  is \<open>APPANIM\<close>, and a second step of the sub-machine calls the app's step and returns
  its ok.
\<close>

theorem C1_failed_start_ends_in_appanim:
  "and_then (aoapps_mngr_stepwithtopo (fail_env 0 True (App_start (Resfn_extern 1)) (aoresult_error 1))
        (demo_mngr AOAPPS_MNGR_FLAGS_WITHTOPO aoresult_ok))
     (\<lambda>(r, s'). Inr (r, aoapps_mngr_state s', filter is_app_start (trace s')))
   = Inr (aoresult_error 1, AOAPPS_MNGR_STATE_APPANIM, [App_start (Resfn_extern 1)])
   \<and>
   and_then (and_then (aoapps_mngr_stepwithtopo (fail_env 0 True (App_start (Resfn_extern 1)) (aoresult_error 1))
        (demo_mngr AOAPPS_MNGR_FLAGS_WITHTOPO aoresult_ok))
       (\<lambda>(r, s'). aoapps_mngr_stepwithtopo (fail_env 0 True (App_start (Resfn_extern 1)) (aoresult_error 1)) s'))
     (\<lambda>(r, s''). Inr (r, aoapps_mngr_state s'', trace s''))
   = Inr (aoresult_ok, AOAPPS_MNGR_STATE_APPANIM,
        [Topo_build_done, Topo_numtriplets, Serial_starting (Some ''demo'') 0,
         App_start (Resfn_extern 1), App_step (Resfn_extern 2)])"
  by code_simp

text \<open>
  C2, as amended. A step of the sub-machine in state \<open>TOPOBUILD\<close> while the build is not
  done calls the builder's step once and itself returns ok, whatever the builder
  answered. The builder's result is stored as the sub-machine's error; when it is ok the
  state stays \<open>TOPOBUILD\<close>, otherwise the state becomes \<open>ERROR\<close> and it is the following
  step that returns the stored result.
\<close>

theorem C2_topobuild_step_returns_ok:
  assumes "aoapps_mngr_state s = AOAPPS_MNGR_STATE_TOPOBUILD"
    and "\<not> env_done ev (trace s @ [Topo_build_done])"
  shows "\<exists>s'. aoapps_mngr_stepwithtopo ev s = Inr (aoresult_ok, s') \<and>
     aoapps_mngr_error s' = env_result ev (trace s @ [Topo_build_done, Topo_build_step]) \<and>
     aoapps_mngr_state s' =
       (if aoapps_mngr_error s' = aoresult_ok then AOAPPS_MNGR_STATE_TOPOBUILD
        else AOAPPS_MNGR_STATE_ERROR) \<and>
     events_since s s' = [Topo_build_done, Topo_build_step] \<and>
     (aoapps_mngr_error s' \<noteq> aoresult_ok \<longrightarrow>
        aoapps_mngr_stepwithtopo ev s' = Inr (aoapps_mngr_error s', s'))"
  using assms
  by (simp add: topobuild_not_done topo_error_absorbs events_since_def Let_def)

theorem C2_witness:
  "aoapps_mngr_state (demo_mngr AOAPPS_MNGR_FLAGS_WITHTOPO aoresult_ok) = AOAPPS_MNGR_STATE_TOPOBUILD \<and>
   \<not> env_done (clock_env 0 False) (trace (demo_mngr AOAPPS_MNGR_FLAGS_WITHTOPO aoresult_ok) @ [Topo_build_done]) \<and>
   (\<exists>s'. aoapps_mngr_stepwithtopo (clock_env 0 False) (demo_mngr AOAPPS_MNGR_FLAGS_WITHTOPO aoresult_ok)
            = Inr (aoresult_ok, s') \<and>
          aoapps_mngr_state s' = AOAPPS_MNGR_STATE_TOPOBUILD \<and>
          events_since (demo_mngr AOAPPS_MNGR_FLAGS_WITHTOPO aoresult_ok) s' = [Topo_build_done, Topo_build_step])"
proof -
  let ?s = "demo_mngr AOAPPS_MNGR_FLAGS_WITHTOPO aoresult_ok"
  have h1: "aoapps_mngr_state ?s = AOAPPS_MNGR_STATE_TOPOBUILD"
    by (simp add: demo_mngr_def)
  have h2: "\<not> env_done (clock_env 0 False) (trace ?s @ [Topo_build_done])"
    by (simp add: clock_env_def)
  have ok: "env_result (clock_env 0 False) (trace ?s @ [Topo_build_done, Topo_build_step]) = aoresult_ok"
    by (simp add: clock_env_def)
  from C2_topobuild_step_returns_ok [OF h1 h2] obtain s' where
    "aoapps_mngr_stepwithtopo (clock_env 0 False) ?s = Inr (aoresult_ok, s')"
    "aoapps_mngr_error s' = env_result (clock_env 0 False) (trace ?s @ [Topo_build_done, Topo_build_step])"
    "aoapps_mngr_state s' =
       (if aoapps_mngr_error s' = aoresult_ok then AOAPPS_MNGR_STATE_TOPOBUILD
        else AOAPPS_MNGR_STATE_ERROR)"
    "events_since ?s s' = [Topo_build_done, Topo_build_step]"
    by blast
  with ok have "\<exists>s'. aoapps_mngr_stepwithtopo (clock_env 0 False) ?s = Inr (aoresult_ok, s') \<and>
          aoapps_mngr_state s' = AOAPPS_MNGR_STATE_TOPOBUILD \<and>
          events_since ?s s' = [Topo_build_done, Topo_build_step]"
    by auto
  with h1 h2 show ?thesis by blast
qed

text \<open>
  The claim C2 as it was stated fails: the builder's step answers error 7, and the step of
  the sub-machine returns ok.
\<close>

theorem C2_counterexample:
  "env_result (fail_env 0 False Topo_build_step (aoresult_error 7)) [Topo_build_done, Topo_build_step]
     = aoresult_error 7
   \<and> aoapps_mngr_stepwithtopo (fail_env 0 False Topo_build_step (aoresult_error 7))
        (demo_mngr AOAPPS_MNGR_FLAGS_WITHTOPO aoresult_ok)
     = Inr (aoresult_ok, (demo_mngr AOAPPS_MNGR_FLAGS_WITHTOPO aoresult_ok)
         \<lparr> aoapps_mngr_state := AOAPPS_MNGR_STATE_ERROR, aoapps_mngr_error := aoresult_error 7,
           trace := [Topo_build_done, Topo_build_step] \<rparr>)"
  by code_simp

text \<open>
  C3. With only the void app registered the claim wants \<open>switchnext\<close> to reject or to
  special-case the call. The code has no such guard: after \<open>init\<close> and \<open>start(0)\<close> the count
  is 1, the app runs, and \<open>switchnext\<close> evaluates \<^verbatim>\<open>appix % (count-1)\<close> with divisor 0.
\<close>

theorem C3_switchnext_divides_by_zero:
  "and_then (and_then (aoapps_mngr_init quiet_env zero_mngr) (aoapps_mngr_start quiet_env 0))
     (\<lambda>s. Inr (aoapps_mngr_app_count s, aoapps_mngr_moderun s)) = Inr (1, 1)
   \<and>
   and_then (and_then (aoapps_mngr_init quiet_env zero_mngr) (aoapps_mngr_start quiet_env 0))
     (aoapps_mngr_switchnext quiet_env) = Inl Div_by_zero"
  by code_simp

text \<open>
  C4, as amended. A registration is accepted exactly when it meets the preconditions: a
  free slot; a name that is not null and has only alphanumeric characters (the empty
  name has none and passes); display name, both labels and the three handlers not null;
  flags within the defined flag bits; command handler and help text both present or both
  absent. Every violation ends in a failed assertion, and nothing else goes wrong in a
  state whose count is not negative.
\<close>

theorem C4_register_checks:
  assumes "0 \<le> aoapps_mngr_count s" and "length (aoapps_mngr_apps s) = 8"
  shows "(registration_valid name oled xlbl ylbl flags start step stop cmd help s \<longrightarrow>
            (\<exists>s'. aoapps_mngr_register name oled xlbl ylbl flags start step stop cmd help s
                    = Inr ((), s'))) \<and>
         (\<not> registration_valid name oled xlbl ylbl flags start step stop cmd help s \<longrightarrow>
            (\<exists>l. aoapps_mngr_register name oled xlbl ylbl flags start step stop cmd help s
                    = Inl (Assert_failed l)))"
proof -
  let ?c1 = "aoapps_mngr_count s < AOAPPS_MNGR_REGISTRATION_SLOTS"
  let ?c2 = "name \<noteq> None \<and> oled \<noteq> None \<and> xlbl \<noteq> None \<and> ylbl \<noteq> None \<and>
         start \<noteq> Resfn_null \<and> step \<noteq> Resfn_null \<and> stop \<noteq> Stopfn_null"
  let ?c3 = "(cmd = Cmdfn_null) = (help = None)"
  let ?c4 = "0 = (flags AND NOT AOAPPS_MNGR_FLAGS_ALL)"
  let ?c5 = "name_chars_ok (the name)"
  have v: "registration_valid name oled xlbl ylbl flags start step stop cmd help s
      = (?c1 \<and> ?c2 \<and> ?c3 \<and> ?c4 \<and> ?c5)"
    unfolding registration_valid_def flags_subset_iff name_chars_ok_iff
      aoapps_mngr_app_count_def AOAPPS_MNGR_REGISTRATION_SLOTS_def
    by (cases name) auto
  consider (ok) "?c1" "?c2" "?c3" "?c4" "?c5" | (a) "\<not> ?c1" | (b) "?c1" "\<not> ?c2"
    | (c) "?c1" "?c2" "\<not> ?c3" | (d) "?c1" "?c2" "?c3" "\<not> ?c4"
    | (e) "?c1" "?c2" "?c3" "?c4" "\<not> ?c5"
    by blast
  then show ?thesis
  proof cases
    case ok
    then have "registration_valid name oled xlbl ylbl flags start step stop cmd help s"
      unfolding v by blast
    with register_accepts [OF ok assms] show ?thesis by blast
  next
    case a
    then have "\<not> registration_valid name oled xlbl ylbl flags start step stop cmd help s"
      unfolding v by blast
    with register_assert_142 [OF a] show ?thesis by blast
  next
    case b
    then have "\<not> registration_valid name oled xlbl ylbl flags start step stop cmd help s"
      unfolding v by blast
    with register_assert_143 [OF b] show ?thesis by blast
  next
    case c
    then have "\<not> registration_valid name oled xlbl ylbl flags start step stop cmd help s"
      unfolding v by blast
    with register_assert_144 [OF c] show ?thesis by blast
  next
    case d
    then have "\<not> registration_valid name oled xlbl ylbl flags start step stop cmd help s"
      unfolding v by blast
    with register_assert_145 [OF d] show ?thesis by blast
  next
    case e
    then have "\<not> registration_valid name oled xlbl ylbl flags start step stop cmd help s"
      unfolding v by blast
    with register_assert_147 [OF e] show ?thesis by blast
  qed
qed

theorem C4_witness:
  "0 \<le> aoapps_mngr_count init_mngr \<and> length (aoapps_mngr_apps init_mngr) = 8 \<and>
   \<not> registration_valid (Some ''my-app'') (Some ''Demo app'') (Some ''x'') (Some ''y'') 0
       (Resfn_extern 1) (Resfn_extern 2) (Stopfn_extern 3) Cmdfn_null None init_mngr \<and>
   (\<exists>l. aoapps_mngr_register (Some ''my-app'') (Some ''Demo app'') (Some ''x'') (Some ''y'') 0
       (Resfn_extern 1) (Resfn_extern 2) (Stopfn_extern 3) Cmdfn_null None init_mngr
     = Inl (Assert_failed l)) \<and>
   registration_valid (Some ''demo'') (Some ''Demo app'') (Some ''x'') (Some ''y'') 0
       (Resfn_extern 1) (Resfn_extern 2) (Stopfn_extern 3) Cmdfn_null None init_mngr \<and>
   (\<exists>s'. aoapps_mngr_register (Some ''demo'') (Some ''Demo app'') (Some ''x'') (Some ''y'') 0
       (Resfn_extern 1) (Resfn_extern 2) (Stopfn_extern 3) Cmdfn_null None init_mngr
     = Inr ((), s'))"
proof -
  have h1: "0 \<le> aoapps_mngr_count init_mngr" by (simp add: init_mngr_def)
  have h2: "length (aoapps_mngr_apps init_mngr) = 8" by (simp add: init_mngr_def)
  have bad: "\<not> registration_valid (Some ''my-app'') (Some ''Demo app'') (Some ''x'') (Some ''y'') 0
       (Resfn_extern 1) (Resfn_extern 2) (Stopfn_extern 3) Cmdfn_null None init_mngr"
    by code_simp
  have good: "registration_valid (Some ''demo'') (Some ''Demo app'') (Some ''x'') (Some ''y'') 0
       (Resfn_extern 1) (Resfn_extern 2) (Stopfn_extern 3) Cmdfn_null None init_mngr"
    by code_simp
  from C4_register_checks [OF h1 h2, of "Some ''my-app''" "Some ''Demo app''" "Some ''x''" "Some ''y''" 0
      "Resfn_extern 1" "Resfn_extern 2" "Stopfn_extern 3" Cmdfn_null None] bad
  have r1: "\<exists>l. aoapps_mngr_register (Some ''my-app'') (Some ''Demo app'') (Some ''x'') (Some ''y'') 0
       (Resfn_extern 1) (Resfn_extern 2) (Stopfn_extern 3) Cmdfn_null None init_mngr
     = Inl (Assert_failed l)"
    by blast
  from C4_register_checks [OF h1 h2, of "Some ''demo''" "Some ''Demo app''" "Some ''x''" "Some ''y''" 0
      "Resfn_extern 1" "Resfn_extern 2" "Stopfn_extern 3" Cmdfn_null None] good
  have r2: "\<exists>s'. aoapps_mngr_register (Some ''demo'') (Some ''Demo app'') (Some ''x'') (Some ''y'') 0
       (Resfn_extern 1) (Resfn_extern 2) (Stopfn_extern 3) Cmdfn_null None init_mngr
     = Inr ((), s')"
    by blast
  from h1 h2 bad r1 good r2 show ?thesis by blast
qed

text \<open>
  The claim C4 as it was stated fails for the empty name: the loop over the name of
  lines 146 and 147 runs zero times, no assertion fails, and the app is registered in
  slot 1 under the empty name.
\<close>

theorem C4_counterexample:
  "aoapps_mngr_register (Some []) (Some ''Demo app'') (Some ''x'') (Some ''y'') 0
     (Resfn_extern 1) (Resfn_extern 2) (Stopfn_extern 3) Cmdfn_null None init_mngr
   = Inr ((), init_mngr\<lparr> aoapps_mngr_count := 2,
       aoapps_mngr_apps := voidapp # (demo_app 0)\<lparr> app_name := Some [] \<rparr> # replicate 6 zero_app \<rparr>)"
  by code_simp




text \<open>
  C6. While the latch holds an error and the current app does not have the flag
  \<open>NEXTONERR\<close>, any number of steps leaves the whole state as it is: latch, current index
  and running flag are unchanged, and nothing is added to the log, so neither the app's
  step nor the topology builder nor a repair telegram is called.
\<close>

theorem C6_latched_steps_do_nothing:
  assumes "aoapps_mngr_moderun s \<noteq> 0" and "cur_app s = Inr a"
    and "aoapps_mngr_result s \<noteq> aoresult_ok"
    and "app_flags a AND AOAPPS_MNGR_FLAGS_NEXTONERR = 0"
  shows "aoapps_mngr_steps ev n s = Inr s"
  by (induction n) (simp_all add: step_latched [OF assms] and_then_def)

theorem C6_witness:
  "aoapps_mngr_moderun (demo_mngr AOAPPS_MNGR_FLAGS_WITHREPAIR (aoresult_error 1)) \<noteq> 0 \<and>
   cur_app (demo_mngr AOAPPS_MNGR_FLAGS_WITHREPAIR (aoresult_error 1))
     = Inr (demo_app AOAPPS_MNGR_FLAGS_WITHREPAIR) \<and>
   aoapps_mngr_result (demo_mngr AOAPPS_MNGR_FLAGS_WITHREPAIR (aoresult_error 1)) \<noteq> aoresult_ok \<and>
   app_flags (demo_app AOAPPS_MNGR_FLAGS_WITHREPAIR) AND AOAPPS_MNGR_FLAGS_NEXTONERR = 0 \<and>
   aoapps_mngr_steps (clock_env 20000 True) 3 (demo_mngr AOAPPS_MNGR_FLAGS_WITHREPAIR (aoresult_error 1))
     = Inr (demo_mngr AOAPPS_MNGR_FLAGS_WITHREPAIR (aoresult_error 1))"
proof -
  let ?s = "demo_mngr AOAPPS_MNGR_FLAGS_WITHREPAIR (aoresult_error 1)"
  have h1: "aoapps_mngr_moderun ?s \<noteq> 0" by (simp add: demo_mngr_def)
  have h2: "cur_app ?s = Inr (demo_app AOAPPS_MNGR_FLAGS_WITHREPAIR)"
    by (simp add: demo_mngr_def cur_app_def)
  have h3: "aoapps_mngr_result ?s \<noteq> aoresult_ok" by (simp add: demo_mngr_def)
  have h4: "app_flags (demo_app AOAPPS_MNGR_FLAGS_WITHREPAIR) AND AOAPPS_MNGR_FLAGS_NEXTONERR = 0"
    by (simp add: demo_app_def AOAPPS_MNGR_FLAGS_WITHREPAIR_def AOAPPS_MNGR_FLAGS_NEXTONERR_def)
  from C6_latched_steps_do_nothing [OF h1 h2 h3 h4, of "clock_env 20000 True" 3] h1 h2 h3 h4
  show ?thesis by blast
qed

text \<open>
  C7, as amended. When the step of the current app (direct or through the sub-machine)
  returns ok and the app has the flag \<open>WITHREPAIR\<close>, the manager reads the clock after that
  step. When strictly more than 250 ms (modulo \<open>2^32\<close>) have passed since the last
  repair, it sends the clear-error telegram to address 0, and only when that returned ok
  the go-active telegram to address 0. The first non-ok result of the two becomes the
  latch; the time of the last repair advances only when both returned ok. Otherwise no
  telegram is sent and the latch stays ok. The telegrams of one step are none, the
  clear-error alone, or the pair in that order, and they come after the calls of the
  app's step.
\<close>

theorem C7_repair_after_app_step:
  assumes "aoapps_mngr_moderun s \<noteq> 0" and "cur_app s = Inr a"
    and "aoapps_mngr_result s = aoresult_ok"
    and "app_flags a AND AOAPPS_MNGR_FLAGS_WITHREPAIR \<noteq> 0"
    and "aoapps_mngr_step_app ev a s = Inr (aoresult_ok, s1)"
  shows "\<exists>s' es. aoapps_mngr_step ev s = Inr s' \<and> trace s' = trace s1 @ es \<and>
     filter is_broadcast (events_since s s1) = [] \<and>
     (let due = (env_millis ev (trace s1 @ [Millis]) - aoapps_mngr_lastrepair s > AOAPPS_MNGR_REPAIR_MS);
          r1 = env_result ev (trace s1 @ [Millis, Send_clrerror 0]);
          r2 = env_result ev (trace s1 @ [Millis, Send_clrerror 0, Send_goactive 0])
      in filter is_broadcast es =
           (if due then (if r1 \<noteq> aoresult_ok then [Send_clrerror 0]
                         else [Send_clrerror 0, Send_goactive 0])
            else []) \<and>
         aoapps_mngr_result s' = (if due then (if r1 \<noteq> aoresult_ok then r1 else r2) else aoresult_ok) \<and>
         aoapps_mngr_lastrepair s' =
           (if due \<and> r1 = aoresult_ok \<and> r2 = aoresult_ok
            then env_millis ev (trace s1 @ [Millis, Send_clrerror 0, Send_goactive 0, Millis])
            else aoapps_mngr_lastrepair s))"
proof -
  from step_app_frame [OF assms(5)] obtain es1 where
    c1: "cur_app s1 = Inr a" and lr: "aoapps_mngr_lastrepair s1 = aoapps_mngr_lastrepair s"
    and tr: "trace s1 = trace s @ es1" and nb: "filter is_broadcast es1 = []"
    using assms(2) by auto
  have ev0: "filter is_broadcast (events_since s s1) = []"
    by (simp add: events_since_def tr nb)
  have st: "aoapps_mngr_step ev s =
     (case aoapps_mngr_repair ev (s1\<lparr> aoapps_mngr_result := aoresult_ok \<rparr>) of
        (r', s3) \<Rightarrow> aoapps_mngr_showstatus ev (s3\<lparr> aoapps_mngr_result := r' \<rparr>))"
    using assms by (simp add: aoapps_mngr_step_def Let_def)
  show ?thesis
    unfolding st repair_eq
    using c1 lr ev0
    by (simp add: showstatus_eq [where a = a] Let_def)
qed

theorem C7_witness:
  "aoapps_mngr_moderun (demo_mngr AOAPPS_MNGR_FLAGS_WITHREPAIR aoresult_ok) \<noteq> 0 \<and>
   cur_app (demo_mngr AOAPPS_MNGR_FLAGS_WITHREPAIR aoresult_ok) = Inr (demo_app AOAPPS_MNGR_FLAGS_WITHREPAIR) \<and>
   aoapps_mngr_result (demo_mngr AOAPPS_MNGR_FLAGS_WITHREPAIR aoresult_ok) = aoresult_ok \<and>
   app_flags (demo_app AOAPPS_MNGR_FLAGS_WITHREPAIR) AND AOAPPS_MNGR_FLAGS_WITHREPAIR \<noteq> 0 \<and>
   aoapps_mngr_step_app (clock_env 251 True) (demo_app AOAPPS_MNGR_FLAGS_WITHREPAIR)
       (demo_mngr AOAPPS_MNGR_FLAGS_WITHREPAIR aoresult_ok)
     = Inr (aoresult_ok, (demo_mngr AOAPPS_MNGR_FLAGS_WITHREPAIR aoresult_ok)\<lparr> trace := [App_step (Resfn_extern 2)] \<rparr>) \<and>
   (\<exists>s' es. aoapps_mngr_step (clock_env 251 True) (demo_mngr AOAPPS_MNGR_FLAGS_WITHREPAIR aoresult_ok) = Inr s' \<and>
      trace s' = [App_step (Resfn_extern 2)] @ es \<and>
      filter is_broadcast es = [Send_clrerror 0, Send_goactive 0] \<and>
      aoapps_mngr_result s' = aoresult_ok \<and> aoapps_mngr_lastrepair s' = 251)"
proof -
  let ?s = "demo_mngr AOAPPS_MNGR_FLAGS_WITHREPAIR aoresult_ok"
  let ?a = "demo_app AOAPPS_MNGR_FLAGS_WITHREPAIR"
  let ?ev = "clock_env 251 True"
  let ?s1 = "?s\<lparr> trace := [App_step (Resfn_extern 2)] \<rparr>"
  have h1: "aoapps_mngr_moderun ?s \<noteq> 0" by (simp add: demo_mngr_def)
  have h2: "cur_app ?s = Inr ?a" by (simp add: demo_mngr_def cur_app_def)
  have h3: "aoapps_mngr_result ?s = aoresult_ok" by (simp add: demo_mngr_def)
  have h4: "app_flags ?a AND AOAPPS_MNGR_FLAGS_WITHREPAIR \<noteq> 0"
    by (simp add: demo_app_def AOAPPS_MNGR_FLAGS_WITHREPAIR_def)
  have h5: "aoapps_mngr_step_app ?ev ?a ?s = Inr (aoresult_ok, ?s1)" by code_simp
  from C7_repair_after_app_step [OF h1 h2 h3 h4 h5] obtain s' es where
    st: "aoapps_mngr_step ?ev ?s = Inr s'" and tr: "trace s' = trace ?s1 @ es" and
    rest: "(let due = (env_millis ?ev (trace ?s1 @ [Millis]) - aoapps_mngr_lastrepair ?s > AOAPPS_MNGR_REPAIR_MS);
          r1 = env_result ?ev (trace ?s1 @ [Millis, Send_clrerror 0]);
          r2 = env_result ?ev (trace ?s1 @ [Millis, Send_clrerror 0, Send_goactive 0])
      in filter is_broadcast es =
           (if due then (if r1 \<noteq> aoresult_ok then [Send_clrerror 0]
                         else [Send_clrerror 0, Send_goactive 0])
            else []) \<and>
         aoapps_mngr_result s' = (if due then (if r1 \<noteq> aoresult_ok then r1 else r2) else aoresult_ok) \<and>
         aoapps_mngr_lastrepair s' =
           (if due \<and> r1 = aoresult_ok \<and> r2 = aoresult_ok
            then env_millis ?ev (trace ?s1 @ [Millis, Send_clrerror 0, Send_goactive 0, Millis])
            else aoapps_mngr_lastrepair ?s))"
    by blast
  have due: "AOAPPS_MNGR_REPAIR_MS < 251 - aoapps_mngr_lastrepair ?s"
    by (simp add: demo_mngr_def AOAPPS_MNGR_REPAIR_MS_def)
  have env: "\<And>tr. env_result ?ev tr = aoresult_ok" "\<And>tr. env_millis ?ev tr = 251"
    by (simp_all add: clock_env_def)
  from rest have "filter is_broadcast es = [Send_clrerror 0, Send_goactive 0] \<and>
      aoapps_mngr_result s' = aoresult_ok \<and> aoapps_mngr_lastrepair s' = 251"
    unfolding Let_def by (simp only: due env if_True if_False simp_thms)
  with st tr have "\<exists>s' es. aoapps_mngr_step ?ev ?s = Inr s' \<and>
      trace s' = [App_step (Resfn_extern 2)] @ es \<and>
      filter is_broadcast es = [Send_clrerror 0, Send_goactive 0] \<and>
      aoapps_mngr_result s' = aoresult_ok \<and> aoapps_mngr_lastrepair s' = 251"
    by (intro exI [of _ s'] exI [of _ es]) simp
  with h1 h2 h3 h4 h5 show ?thesis by blast
qed

text \<open>
  The claim C7 as it was stated fails in two places. At exactly 250 ms since the last
  repair the step sends no telegram. And when the clear-error telegram returns an error
  (here error 3, at 251 ms), the go-active telegram is not sent.
\<close>

theorem C7_counterexample:
  "and_then (aoapps_mngr_step (clock_env 250 True) (demo_mngr AOAPPS_MNGR_FLAGS_WITHREPAIR aoresult_ok))
     (\<lambda>s'. Inr (aoapps_mngr_result s', trace s'))
   = Inr (aoresult_ok, [App_step (Resfn_extern 2), Millis, Millis])
   \<and>
   and_then (aoapps_mngr_step (fail_env 251 True (Send_clrerror 0) (aoresult_error 3))
               (demo_mngr AOAPPS_MNGR_FLAGS_WITHREPAIR aoresult_ok))
     (\<lambda>s'. Inr (aoapps_mngr_result s', filter is_broadcast (trace s')))
   = Inr (aoresult_error 3, [Send_clrerror 0])"
  by code_simp

text \<open>
  C8. In a well-formed state with more than one registered app and the current app
  running, \<open>switchnext\<close> succeeds and switches to the app at index
  \<open>(appix mod (count - 1)) + 1\<close>. That index is never 0 and lies in \<open>1 \<le> ... < count\<close>.
  Switching means: the stop handler of the outgoing app is called first, then come the
  calls of the start of the incoming app (its own start handler, or the start of the
  topology build when it is flagged so), then only calls of the status display. Afterwards
  the incoming app is current and running, the latch holds the outcome of its start,
  and the table of apps is as before.
\<close>

theorem C8_switchnext_target:
  assumes "mngr_wf s" and "aoapps_mngr_moderun s \<noteq> 0" and "aoapps_mngr_app_count s > 1"
  shows "\<exists>s' es. aoapps_mngr_switchnext ev s = Inr s' \<and>
     aoapps_mngr_appix s' = aoapps_mngr_appix s mod (aoapps_mngr_app_count s - 1) + 1 \<and>
     aoapps_mngr_appix s' \<noteq> 0 \<and> 1 \<le> aoapps_mngr_appix s' \<and>
     aoapps_mngr_appix s' < aoapps_mngr_app_count s' \<and>
     aoapps_mngr_moderun s' = 1 \<and>
     aoapps_mngr_app_count s' = aoapps_mngr_app_count s \<and>
     aoapps_mngr_apps s' = aoapps_mngr_apps s \<and>
     aoapps_mngr_result s' =
       start_latch ev (aoapps_mngr_apps s ! nat (aoapps_mngr_appix s'))
         (trace s @ [App_stop (app_stop (aoapps_mngr_apps s ! nat (aoapps_mngr_appix s)))]) \<and>
     trace s' = trace s @ [App_stop (app_stop (aoapps_mngr_apps s ! nat (aoapps_mngr_appix s)))] @
                 start_calls (aoapps_mngr_apps s ! nat (aoapps_mngr_appix s')) @ es \<and>
     list_all is_status_call es \<and>
     (app_flags (aoapps_mngr_apps s ! nat (aoapps_mngr_appix s')) AND AOAPPS_MNGR_FLAGS_WITHTOPO \<noteq> 0 \<longrightarrow>
        aoapps_mngr_state s' = AOAPPS_MNGR_STATE_TOPOBUILD \<and> aoapps_mngr_error s' = aoresult_ok)"
proof -
  have c: "aoapps_mngr_count s > 1" using assms(3) by (simp add: aoapps_mngr_app_count_def)
  from switchnext_full [OF assms(1,2) c, of ev] obtain s' es where
    f: "aoapps_mngr_switchnext ev s = Inr s'"
    "aoapps_mngr_appix s' = aoapps_mngr_appix s mod (aoapps_mngr_count s - 1) + 1"
    "1 \<le> aoapps_mngr_appix s'" "aoapps_mngr_appix s' < aoapps_mngr_count s'"
    "aoapps_mngr_moderun s' = 1" "aoapps_mngr_count s' = aoapps_mngr_count s"
    "aoapps_mngr_apps s' = aoapps_mngr_apps s"
    "aoapps_mngr_result s' =
       start_latch ev (aoapps_mngr_apps s ! nat (aoapps_mngr_appix s'))
         (trace s @ [App_stop (app_stop (aoapps_mngr_apps s ! nat (aoapps_mngr_appix s)))])"
    "trace s' = trace s @ [App_stop (app_stop (aoapps_mngr_apps s ! nat (aoapps_mngr_appix s)))] @
                 start_calls (aoapps_mngr_apps s ! nat (aoapps_mngr_appix s')) @ es"
    "list_all is_status_call es"
    "app_flags (aoapps_mngr_apps s ! nat (aoapps_mngr_appix s')) AND AOAPPS_MNGR_FLAGS_WITHTOPO \<noteq> 0 \<longrightarrow>
        aoapps_mngr_state s' = AOAPPS_MNGR_STATE_TOPOBUILD \<and> aoapps_mngr_error s' = aoresult_ok"
    by blast
  have nz: "aoapps_mngr_appix s' \<noteq> 0" using f(3) by simp
  show ?thesis
    apply (rule exI [of _ s'])
    apply (rule exI [of _ es])
    using f nz by (simp add: aoapps_mngr_app_count_def)
qed

theorem C8_witness:
  "mngr_wf quad_mngr \<and> aoapps_mngr_moderun quad_mngr \<noteq> 0 \<and> aoapps_mngr_app_count quad_mngr > 1 \<and>
   (\<exists>s' es. aoapps_mngr_switchnext quiet_env quad_mngr = Inr s' \<and> aoapps_mngr_appix s' = 1 \<and>
      aoapps_mngr_moderun s' = 1 \<and> aoapps_mngr_result s' = aoresult_ok \<and>
      trace s' = [App_stop (Stopfn_extern 3),
                  Oled_state (Some ''Demo app'') (Some ''x'') (Some ''y''),
                  Led_off [AOUI32_LED_GRN, AOUI32_LED_RED], Led_on [AOUI32_LED_GRN], Millis,
                  App_start (Resfn_extern 1)] @ es \<and>
      list_all is_status_call es)"
proof -
  have h1: "mngr_wf quad_mngr" by code_simp
  have h2: "aoapps_mngr_moderun quad_mngr \<noteq> 0" by (simp add: quad_mngr_def)
  have h3: "aoapps_mngr_app_count quad_mngr > 1"
    by (simp add: quad_mngr_def aoapps_mngr_app_count_def)
  have ix: "aoapps_mngr_appix quad_mngr mod (aoapps_mngr_app_count quad_mngr - 1) + 1 = 1"
    by (simp add: quad_mngr_def aoapps_mngr_app_count_def)
  have old: "aoapps_mngr_apps quad_mngr ! nat (aoapps_mngr_appix quad_mngr)
      = demo_app AOAPPS_MNGR_FLAGS_NEXTONERR"
    by (simp add: quad_mngr_def)
  have new: "aoapps_mngr_apps quad_mngr ! nat 1 = demo_app 0"
    by (simp add: quad_mngr_def)
  have tr0: "trace quad_mngr = []" by (simp add: quad_mngr_def)
  have st: "app_stop (demo_app AOAPPS_MNGR_FLAGS_NEXTONERR) = Stopfn_extern 3"
    by (simp add: demo_app_def)
  have calls: "start_calls (demo_app 0) =
      [Oled_state (Some ''Demo app'') (Some ''x'') (Some ''y''),
       Led_off [AOUI32_LED_GRN, AOUI32_LED_RED], Led_on [AOUI32_LED_GRN], Millis,
       App_start (Resfn_extern 1)]"
    by (simp add: start_calls_def demo_app_def)
  have la: "\<And>tr. start_latch quiet_env (demo_app 0) tr = aoresult_ok"
    by (simp add: start_latch_def demo_app_def quiet_env_def)
  from C8_switchnext_target [OF h1 h2 h3, of quiet_env] obtain s' es where
    f: "aoapps_mngr_switchnext quiet_env quad_mngr = Inr s'"
    "aoapps_mngr_appix s' = aoapps_mngr_appix quad_mngr mod (aoapps_mngr_app_count quad_mngr - 1) + 1"
    "aoapps_mngr_moderun s' = 1"
    "aoapps_mngr_result s' =
       start_latch quiet_env (aoapps_mngr_apps quad_mngr ! nat (aoapps_mngr_appix s'))
         (trace quad_mngr @ [App_stop (app_stop (aoapps_mngr_apps quad_mngr ! nat (aoapps_mngr_appix quad_mngr)))])"
    "trace s' = trace quad_mngr @ [App_stop (app_stop (aoapps_mngr_apps quad_mngr ! nat (aoapps_mngr_appix quad_mngr)))] @
                 start_calls (aoapps_mngr_apps quad_mngr ! nat (aoapps_mngr_appix s')) @ es"
    "list_all is_status_call es"
    by blast
  have i1: "aoapps_mngr_appix s' = 1" using f(2) ix by simp
  have r: "aoapps_mngr_result s' = aoresult_ok"
    using f(4) by (simp only: i1 new la)
  have t: "trace s' = [App_stop (Stopfn_extern 3),
                  Oled_state (Some ''Demo app'') (Some ''x'') (Some ''y''),
                  Led_off [AOUI32_LED_GRN, AOUI32_LED_RED], Led_on [AOUI32_LED_GRN], Millis,
                  App_start (Resfn_extern 1)] @ es"
    using f(5) by (simp only: i1 new old tr0 st calls append_Nil append_Cons)
  have "\<exists>s' es. aoapps_mngr_switchnext quiet_env quad_mngr = Inr s' \<and> aoapps_mngr_appix s' = 1 \<and>
      aoapps_mngr_moderun s' = 1 \<and> aoapps_mngr_result s' = aoresult_ok \<and>
      trace s' = [App_stop (Stopfn_extern 3),
                  Oled_state (Some ''Demo app'') (Some ''x'') (Some ''y''),
                  Led_off [AOUI32_LED_GRN, AOUI32_LED_RED], Led_on [AOUI32_LED_GRN], Millis,
                  App_start (Resfn_extern 1)] @ es \<and>
      list_all is_status_call es"
    using f(1,3,6) i1 r t by blast
  with h1 h2 h3 show ?thesis by blast
qed

text \<open>
  C9, as amended. A successful registration increases the count by exactly 1, the count
  after it is at most 8, and the descriptor is stored under the index that the count had
  before the call, where the observer of names finds it; the other slots are as before.
  The function itself returns nothing (its C return type is \<^verbatim>\<open>void\<close>).
\<close>

theorem C9_register_monotonic:
  assumes "aoapps_mngr_register name oled xlbl ylbl flags start step stop cmd help s = Inr (u, s')"
  shows "aoapps_mngr_app_count s' = aoapps_mngr_app_count s + 1 \<and>
     aoapps_mngr_app_count s' \<le> AOAPPS_MNGR_REGISTRATION_SLOTS \<and>
     aoapps_mngr_app_name s' (aoapps_mngr_app_count s) = Inr name \<and>
     aoapps_mngr_apps s' = (aoapps_mngr_apps s)[nat (aoapps_mngr_app_count s) :=
        \<lparr> app_name = name, app_oled = oled, app_xlbl = xlbl, app_ylbl = ylbl,
          app_flags = flags, app_start = start, app_step = step, app_stop = stop,
          app_cmd = cmd, app_help = help \<rparr>]"
  using assms
  by (auto simp: aoapps_mngr_register_def aoapps_mngr_app_count_def aoapps_mngr_app_name_def
        Let_def split: if_splits)

theorem C9_witness:
  "aoapps_mngr_register (Some ''demo'') (Some ''Demo app'') (Some ''x'') (Some ''y'')
       AOAPPS_MNGR_FLAGS_WITHTOPO (Resfn_extern 1) (Resfn_extern 2) (Stopfn_extern 3) Cmdfn_null None init_mngr
     = Inr ((), init_mngr\<lparr> aoapps_mngr_count := 2,
         aoapps_mngr_apps := voidapp # demo_app AOAPPS_MNGR_FLAGS_WITHTOPO # replicate 6 zero_app \<rparr>) \<and>
   aoapps_mngr_app_count init_mngr = 1 \<and>
   aoapps_mngr_app_count (init_mngr\<lparr> aoapps_mngr_count := 2,
         aoapps_mngr_apps := voidapp # demo_app AOAPPS_MNGR_FLAGS_WITHTOPO # replicate 6 zero_app \<rparr>) = 2 \<and>
   aoapps_mngr_app_name (init_mngr\<lparr> aoapps_mngr_count := 2,
         aoapps_mngr_apps := voidapp # demo_app AOAPPS_MNGR_FLAGS_WITHTOPO # replicate 6 zero_app \<rparr>) 1
     = Inr (Some ''demo'')"
proof -
  let ?s' = "init_mngr\<lparr> aoapps_mngr_count := 2,
         aoapps_mngr_apps := voidapp # demo_app AOAPPS_MNGR_FLAGS_WITHTOPO # replicate 6 zero_app \<rparr>"
  have h: "aoapps_mngr_register (Some ''demo'') (Some ''Demo app'') (Some ''x'') (Some ''y'')
       AOAPPS_MNGR_FLAGS_WITHTOPO (Resfn_extern 1) (Resfn_extern 2) (Stopfn_extern 3) Cmdfn_null None init_mngr
     = Inr ((), ?s')"
    by code_simp
  have c: "aoapps_mngr_app_count init_mngr = 1"
    by (simp add: aoapps_mngr_app_count_def init_mngr_def)
  from C9_register_monotonic [OF h]
  have "aoapps_mngr_app_count ?s' = aoapps_mngr_app_count init_mngr + 1"
    and "aoapps_mngr_app_name ?s' (aoapps_mngr_app_count init_mngr) = Inr (Some ''demo'')"
    by blast+
  with c have "aoapps_mngr_app_count ?s' = 2" "aoapps_mngr_app_name ?s' 1 = Inr (Some ''demo'')"
    by simp_all
  with h c show ?thesis by blast
qed

text \<open>
  The claim C9 as it was stated speaks of the index returned by the call. The call
  returns no index: with count 1 before it, its whole result is the unit value and the
  new state.
\<close>

theorem C9_counterexample:
  "aoapps_mngr_app_count init_mngr = 1 \<and>
   aoapps_mngr_register (Some ''demo'') (Some ''Demo app'') (Some ''x'') (Some ''y'') 0
     (Resfn_extern 1) (Resfn_extern 2) (Stopfn_extern 3) Cmdfn_null None init_mngr
   = Inr ((), init_mngr\<lparr> aoapps_mngr_count := 2,
       aoapps_mngr_apps := voidapp # demo_app 0 # replicate 6 zero_app \<rparr>)"
  by code_simp

text \<open>
  C10. Stopping a running app logs one call of that app's stop handler and clears the
  running flag. Nothing else changes: current index, latch, count, the descriptors and
  the three timestamps are as before. The handler returns nothing.
\<close>

theorem C10_stop_changes_only_running_flag:
  assumes "aoapps_mngr_moderun s \<noteq> 0" and "cur_app s = Inr a" and "app_stop a \<noteq> Stopfn_null"
  shows "\<exists>s'. aoapps_mngr_stop s = Inr s' \<and>
     s' = s\<lparr> aoapps_mngr_moderun := 0, trace := trace s @ [App_stop (app_stop a)] \<rparr> \<and>
     aoapps_mngr_moderun s' = 0 \<and>
     aoapps_mngr_appix s' = aoapps_mngr_appix s \<and>
     aoapps_mngr_result s' = aoapps_mngr_result s \<and>
     aoapps_mngr_app_count s' = aoapps_mngr_app_count s \<and>
     aoapps_mngr_apps s' = aoapps_mngr_apps s \<and>
     aoapps_mngr_lastgrn s' = aoapps_mngr_lastgrn s \<and>
     aoapps_mngr_lastrepair s' = aoapps_mngr_lastrepair s \<and>
     aoapps_mngr_lasterror s' = aoapps_mngr_lasterror s \<and>
     events_since s s' = [App_stop (app_stop a)]"
  by (simp add: stop_eq [OF assms] aoapps_mngr_app_count_def events_since_def)

theorem C10_witness:
  "aoapps_mngr_moderun quad_mngr \<noteq> 0 \<and>
   cur_app quad_mngr = Inr (demo_app AOAPPS_MNGR_FLAGS_NEXTONERR) \<and>
   app_stop (demo_app AOAPPS_MNGR_FLAGS_NEXTONERR) \<noteq> Stopfn_null \<and>
   aoapps_mngr_stop quad_mngr =
     Inr (quad_mngr\<lparr> aoapps_mngr_moderun := 0, trace := [App_stop (Stopfn_extern 3)] \<rparr>)"
proof -
  have h1: "aoapps_mngr_moderun quad_mngr \<noteq> 0" by (simp add: quad_mngr_def)
  have h2: "cur_app quad_mngr = Inr (demo_app AOAPPS_MNGR_FLAGS_NEXTONERR)"
    by (simp add: quad_mngr_def cur_app_def)
  have h3: "app_stop (demo_app AOAPPS_MNGR_FLAGS_NEXTONERR) \<noteq> Stopfn_null"
    by (simp add: demo_app_def)
  have tr: "trace quad_mngr = []" and st: "app_stop (demo_app AOAPPS_MNGR_FLAGS_NEXTONERR) = Stopfn_extern 3"
    by (simp_all add: quad_mngr_def demo_app_def)
  from C10_stop_changes_only_running_flag [OF h1 h2 h3]
  have "aoapps_mngr_stop quad_mngr =
     Inr (quad_mngr\<lparr> aoapps_mngr_moderun := 0,
            trace := trace quad_mngr @ [App_stop (app_stop (demo_app AOAPPS_MNGR_FLAGS_NEXTONERR))] \<rparr>)"
    by blast
  then have "aoapps_mngr_stop quad_mngr =
     Inr (quad_mngr\<lparr> aoapps_mngr_moderun := 0, trace := [App_stop (Stopfn_extern 3)] \<rparr>)"
    by (simp only: tr st append_Nil)
  with h1 h2 h3 show ?thesis by blast
qed

end
